theory Spec2Isabelle
  imports Main "HOL-Library.AList"
begin

section \<open>JavaScript documents\<close>

text \<open>
  The element helpers of \<^verbatim>\<open>src/index.js\<close> work on plain JavaScript documents: the
  objects produced by the XML parser or by \<^verbatim>\<open>createNodeElement\<close>. A document is a
  value of \<open>jsval\<close>.
  \<^item> An object is the list of its own properties in the order in which
    \<^verbatim>\<open>Object.keys\<close> lists them; the keys of a JavaScript object are pairwise
    different. Only own data properties are modelled (there are no functions among the
    values, and an array carries no named properties).
  \<^item> An array is the list of its items (no holes).
  \<^item> A Number is represented by the text that \<^verbatim>\<open>Number.prototype.toString\<close>
    prints for it: \<open>JNum ''48.8''\<close>, \<open>JNum ''3''\<close>, \<open>JNum ''NaN''\<close>. The code only ever
    stores a Number, prints it, compares it or hands it to \<^verbatim>\<open>parseInt\<close> (whose first
    step is the conversion to a string), and all of these are determined by that text.
  \<^item> A string is a \<open>char list\<close>: the strings whose code units are below 256.
\<close>

datatype jsval =
    JUndefined
  | JNull
  | JBool bool
  | JNum string
  | JStr string
  | JArr "jsval list"
  | JObj "(string \<times> jsval) list"

text \<open>
  \<open>TypeError\<close> is the exception the engine throws when a property of
  \<^verbatim>\<open>undefined\<close> or \<^verbatim>\<open>null\<close> is read or written, when a property is
  created on a primitive (class bodies are strict code) and when something that is not a
  function is called. \<open>Unsupported\<close> marks the one step the document model cannot
  represent: storing a named property on an array.
\<close>

datatype js_error = TypeError | Unsupported

definition bindE :: "js_error + 'a \<Rightarrow> ('a \<Rightarrow> js_error + 'b) \<Rightarrow> js_error + 'b" where
  "bindE m f = (case m of Inl e \<Rightarrow> Inl e | Inr x \<Rightarrow> f x)"

fun mapE :: "('a \<Rightarrow> js_error + 'b) \<Rightarrow> 'a list \<Rightarrow> js_error + 'b list" where
  "mapE f [] = Inr []"
| "mapE f (x # xs) = bindE (f x) (\<lambda>y. bindE (mapE f xs) (\<lambda>ys. Inr (y # ys)))"

text \<open>\<^verbatim>\<open>Array.prototype.filter\<close> with a callback that may throw.\<close>

fun filterE :: "('a \<Rightarrow> js_error + bool) \<Rightarrow> 'a list \<Rightarrow> js_error + 'a list" where
  "filterE p [] = Inr []"
| "filterE p (x # xs) =
     bindE (p x) (\<lambda>keep. bindE (filterE p xs) (\<lambda>ys. Inr (if keep then x # ys else ys)))"

subsection \<open>Decimal numerals\<close>

definition digit_char :: "nat \<Rightarrow> char" where
  "digit_char d = char_of (48 + d)"

fun dec :: "nat \<Rightarrow> string" where
  "dec n = (if n < 10 then [digit_char n] else dec (n div 10) @ [digit_char (n mod 10)])"

declare dec.simps [simp del]

definition is_digit :: "char \<Rightarrow> bool" where
  "is_digit c = (48 \<le> (of_char c :: nat) \<and> (of_char c :: nat) \<le> 57)"

definition digit_val :: "char \<Rightarrow> nat" where
  "digit_val c = of_char c - 48"

definition nat_of_digits :: "string \<Rightarrow> nat" where
  "nat_of_digits s = foldl (\<lambda>a c. 10 * a + digit_val c) 0 s"

text \<open>
  A property key is an array index when it is the canonical decimal numeral of a natural
  number (\<^verbatim>\<open>"0"\<close>, \<^verbatim>\<open>"17"\<close>, but not \<^verbatim>\<open>"01"\<close>).
\<close>

definition array_index :: "string \<Rightarrow> nat option" where
  "array_index key =
     (if key \<noteq> [] \<and> list_all is_digit key \<and> (key = ''0'' \<or> hd key \<noteq> CHR ''0'')
      then Some (nat_of_digits key) else None)"

subsection \<open>Conversion to a string\<close>

fun join_with :: "string \<Rightarrow> string list \<Rightarrow> string" where
  "join_with sep [] = []"
| "join_with sep [x] = x"
| "join_with sep (x # y # ys) = x @ sep @ join_with sep (y # ys)"

text \<open>
  The abstract operation \<^verbatim>\<open>ToString\<close>. An array prints its items joined by commas,
  \<^verbatim>\<open>undefined\<close> and \<^verbatim>\<open>null\<close> items as the empty string. An object inherits
  \<^verbatim>\<open>Object.prototype.toString\<close> unless it has an own property of that name, which in a
  document is data and cannot be called.
\<close>

fun ToString :: "jsval \<Rightarrow> js_error + string"
  and ToString_items :: "jsval list \<Rightarrow> js_error + string list" where
  "ToString JUndefined = Inr ''undefined''"
| "ToString JNull = Inr ''null''"
| "ToString (JBool b) = Inr (if b then ''true'' else ''false'')"
| "ToString (JNum n) = Inr n"
| "ToString (JStr s) = Inr s"
| "ToString (JArr xs) = bindE (ToString_items xs) (\<lambda>ss. Inr (join_with '','' ss))"
| "ToString (JObj ps) =
     (if map_of ps ''toString'' = None then Inr ''[object Object]'' else Inl TypeError)"
| "ToString_items [] = Inr []"
| "ToString_items (x # xs) =
     bindE (if x = JUndefined \<or> x = JNull then Inr [] else ToString x)
       (\<lambda>s. bindE (ToString_items xs) (\<lambda>ss. Inr (s # ss)))"

text \<open>The method call \<^verbatim>\<open>x.toString()\<close>: there is no method to call on
  \<^verbatim>\<open>undefined\<close> and \<^verbatim>\<open>null\<close>.\<close>

definition toString_method :: "jsval \<Rightarrow> js_error + string" where
  "toString_method x = (if x = JUndefined \<or> x = JNull then Inl TypeError else ToString x)"

subsection \<open>Reading and writing properties\<close>

definition get_prop :: "jsval \<Rightarrow> string \<Rightarrow> js_error + jsval" where
  "get_prop x key =
     (case x of
        JUndefined \<Rightarrow> Inl TypeError
      | JNull \<Rightarrow> Inl TypeError
      | JObj ps \<Rightarrow> Inr (case map_of ps key of Some v \<Rightarrow> v | None \<Rightarrow> JUndefined)
      | JArr xs \<Rightarrow>
          Inr (if key = ''length'' then JNum (dec (length xs))
               else case array_index key of
                      Some i \<Rightarrow> if i < length xs then xs ! i else JUndefined
                    | None \<Rightarrow> JUndefined)
      | JStr s \<Rightarrow>
          Inr (if key = ''length'' then JNum (dec (length s))
               else case array_index key of
                      Some i \<Rightarrow> if i < length s then JStr [s ! i] else JUndefined
                    | None \<Rightarrow> JUndefined)
      | JBool b \<Rightarrow> Inr JUndefined
      | JNum n \<Rightarrow> Inr JUndefined)"

text \<open>
  The assignment \<^verbatim>\<open>x.key = v\<close> for a key that is not an array index, returning the
  object as it is after the assignment. An existing property keeps its place, a new one
  goes last.
\<close>

definition set_prop :: "jsval \<Rightarrow> string \<Rightarrow> jsval \<Rightarrow> js_error + jsval" where
  "set_prop x key v =
     (case x of
        JObj ps \<Rightarrow> Inr (JObj (AList.update key v ps))
      | JArr xs \<Rightarrow> Inl Unsupported
      | _ \<Rightarrow> Inl TypeError)"

text \<open>
  The helpers change an object in place that they reached through its parent. In a model
  of values the parent is rebuilt around the changed child: \<open>put_child p key c\<close> is the
  container \<open>p\<close> whose property \<open>key\<close> holds the changed object \<open>c\<close>.
\<close>

definition put_child :: "jsval \<Rightarrow> string \<Rightarrow> jsval \<Rightarrow> jsval" where
  "put_child p key c =
     (case p of
        JObj ps \<Rightarrow> JObj (AList.update key c ps)
      | JArr xs \<Rightarrow> (case array_index key of Some i \<Rightarrow> JArr (xs[i := c]) | None \<Rightarrow> p)
      | _ \<Rightarrow> p)"

definition truthy :: "jsval \<Rightarrow> bool" where
  "truthy x =
     (case x of
        JUndefined \<Rightarrow> False
      | JNull \<Rightarrow> False
      | JBool b \<Rightarrow> b
      | JNum n \<Rightarrow> n \<noteq> ''0'' \<and> n \<noteq> ''NaN''
      | JStr s \<Rightarrow> s \<noteq> []
      | _ \<Rightarrow> True)"

text \<open>
  Strict equality \<^verbatim>\<open>===\<close>. Two objects are equal only when they are the same object;
  in every comparison the helpers make, the left operand is read from the fresh copy of
  the element, so an object there is never the object on the right.
\<close>

fun strict_eq :: "jsval \<Rightarrow> jsval \<Rightarrow> bool" where
  "strict_eq JUndefined JUndefined = True"
| "strict_eq JNull JNull = True"
| "strict_eq (JBool a) (JBool b) = (a = b)"
| "strict_eq (JNum a) (JNum b) = (a = b \<and> a \<noteq> ''NaN'')"
| "strict_eq (JStr a) (JStr b) = (a = b)"
| "strict_eq _ _ = False"

text \<open>\<^verbatim>\<open>names.includes(x)\<close> for an array of strings.\<close>

definition array_includes :: "string list \<Rightarrow> jsval \<Rightarrow> bool" where
  "array_includes names x = (case x of JStr s \<Rightarrow> s \<in> set names | _ \<Rightarrow> False)"

definition Object_keys :: "jsval \<Rightarrow> js_error + string list" where
  "Object_keys x =
     (case x of
        JUndefined \<Rightarrow> Inl TypeError
      | JNull \<Rightarrow> Inl TypeError
      | JObj ps \<Rightarrow> Inr (map fst ps)
      | JArr xs \<Rightarrow> Inr (map dec [0..<length xs])
      | JStr s \<Rightarrow> Inr (map dec [0..<length s])
      | _ \<Rightarrow> Inr [])"

text \<open>\<^verbatim>\<open>x.filter(cb)\<close>: only an array has the method.\<close>

definition array_filter :: "jsval \<Rightarrow> (jsval \<Rightarrow> js_error + bool) \<Rightarrow> js_error + jsval list" where
  "array_filter x cb =
     (case x of
        JArr xs \<Rightarrow> filterE cb xs
      | _ \<Rightarrow> Inl TypeError)"

text \<open>
  Modelled from the spec: \<^verbatim>\<open>simpleObjectDeepClone\<close> lives in \<^verbatim>\<open>helpers/utils\<close>,
  which is not among the sources. The specification says that it makes a deep copy: a
  document of the same structure that shares no object with its argument. On values that
  is the same value; the store model below makes the new objects explicit.
\<close>

definition simpleObjectDeepClone :: "jsval \<Rightarrow> jsval" where
  "simpleObjectDeepClone x = x"

section \<open>The element helpers\<close>

text \<open>The tag object \<^verbatim>\<open>{ $: { k: ..., v: ... } }\<close>.\<close>

definition tag_object :: "string \<Rightarrow> string \<Rightarrow> jsval" where
  "tag_object k v = JObj [(''$'', JObj [(''k'', JStr k), (''v'', JStr v)])]"


text \<open>
  The expression \<^verbatim>\<open>newElement.osm[elementType][0]\<close>. The computed key
  \<^verbatim>\<open>elementType\<close> is converted to a property key, that is, to a string.
\<close>

definition inner_element :: "jsval \<Rightarrow> jsval \<Rightarrow> js_error + jsval" where
  "inner_element newElement elementType =
     bindE (get_prop newElement ''osm'') (\<lambda>osm.
     bindE (ToString elementType) (\<lambda>key.
     bindE (get_prop osm key) (\<lambda>items.
     get_prop items ''0'')))"

text \<open>
  \<open>store_inner newElement elementType inner'\<close> is \<^verbatim>\<open>newElement\<close> after the object
  \<^verbatim>\<open>newElement.osm[elementType][0]\<close> has been changed in place to \<open>inner'\<close>.
\<close>

definition store_inner :: "jsval \<Rightarrow> jsval \<Rightarrow> jsval \<Rightarrow> js_error + jsval" where
  "store_inner newElement elementType inner' =
     bindE (get_prop newElement ''osm'') (\<lambda>osm.
     bindE (ToString elementType) (\<lambda>key.
     bindE (get_prop osm key) (\<lambda>items.
     Inr (put_child newElement ''osm'' (put_child osm key (put_child items ''0'' inner'))))))"

text \<open>The key of a tag as the filter callbacks read it: \<^verbatim>\<open>tag.$.k\<close>.\<close>

definition tag_dollar_k :: "jsval \<Rightarrow> js_error + jsval" where
  "tag_dollar_k t = bindE (get_prop t ''$'') (\<lambda>d. get_prop d ''k'')"

definition setProperty :: "jsval \<Rightarrow> jsval \<Rightarrow> jsval \<Rightarrow> js_error + jsval" where
  "setProperty element propertyName propertyValue =
     bindE (get_prop element ''_type'') (\<lambda>elementType.
     let newElement = simpleObjectDeepClone element in
     bindE (inner_element newElement elementType) (\<lambda>innerElement.
     bindE (get_prop innerElement ''tag'') (\<lambda>tag.
     bindE (if truthy tag
            then array_filter tag (\<lambda>t.
                   bindE (tag_dollar_k t) (\<lambda>k.
                   bindE (toString_method propertyName) (\<lambda>name.
                   Inr (\<not> strict_eq k (JStr name)))))
            else Inr []) (\<lambda>filteredTags.
     bindE (toString_method propertyName) (\<lambda>k.
     bindE (toString_method propertyValue) (\<lambda>v.
     bindE (set_prop innerElement ''tag'' (JArr (filteredTags @ [tag_object k v]))) (\<lambda>innerElement'.
     store_inner newElement elementType innerElement')))))))"

definition setProperties :: "jsval \<Rightarrow> jsval \<Rightarrow> js_error + jsval" where
  "setProperties element properties =
     (let newElement = simpleObjectDeepClone element;
          clonedProperties = simpleObjectDeepClone properties in
      bindE (Object_keys clonedProperties) (\<lambda>propertiesName.
      bindE (get_prop element ''_type'') (\<lambda>elementType.
      bindE (inner_element newElement elementType) (\<lambda>innerElement.
      bindE (get_prop innerElement ''tag'') (\<lambda>tag.
      bindE (if truthy tag
             then array_filter tag (\<lambda>t.
                    bindE (tag_dollar_k t) (\<lambda>k.
                    Inr (\<not> array_includes propertiesName k)))
             else Inr []) (\<lambda>filteredTags.
      bindE (mapE (\<lambda>propertyName.
               bindE (get_prop clonedProperties propertyName) (\<lambda>x.
               bindE (toString_method x) (\<lambda>v.
               Inr (tag_object propertyName v)))) propertiesName) (\<lambda>formattedProperties.
      bindE (set_prop innerElement ''tag'' (JArr (filteredTags @ formattedProperties))) (\<lambda>innerElement'.
      store_inner newElement elementType innerElement'))))))))"

definition removeProperty :: "jsval \<Rightarrow> jsval \<Rightarrow> js_error + jsval" where
  "removeProperty element propertyName =
     bindE (get_prop element ''_type'') (\<lambda>elementType.
     let newElement = simpleObjectDeepClone element in
     bindE (inner_element newElement elementType) (\<lambda>innerElement.
     bindE (get_prop innerElement ''tag'') (\<lambda>tag.
     bindE (array_filter tag (\<lambda>t.
              bindE (tag_dollar_k t) (\<lambda>k.
              Inr (\<not> strict_eq k propertyName)))) (\<lambda>filteredTags.
     bindE (set_prop innerElement ''tag'' (JArr filteredTags)) (\<lambda>innerElement'.
     store_inner newElement elementType innerElement')))))"

text \<open>
  The statement \<^verbatim>\<open>newElement.osm[elementType][0].$.name = value\<close>, where the
  right-hand side \<open>rhs\<close> is evaluated after the object on the left has been reached and
  before the property is written.
\<close>

definition assign_attribute ::
  "jsval \<Rightarrow> jsval \<Rightarrow> string \<Rightarrow> js_error + jsval \<Rightarrow> js_error + jsval" where
  "assign_attribute newElement elementType name rhs =
     bindE (inner_element newElement elementType) (\<lambda>innerElement.
     bindE (get_prop innerElement ''$'') (\<lambda>attrs.
     bindE rhs (\<lambda>v.
     bindE (set_prop attrs name v) (\<lambda>attrs'.
     store_inner newElement elementType (put_child innerElement ''$'' attrs')))))"

definition setCoordinates :: "jsval \<Rightarrow> jsval \<Rightarrow> jsval \<Rightarrow> js_error + jsval" where
  "setCoordinates element lat lon =
     bindE (get_prop element ''_type'') (\<lambda>elementType.
     let newElement = simpleObjectDeepClone element in
     bindE (assign_attribute newElement elementType ''lat''
              (bindE (toString_method lat) (\<lambda>s. Inr (JStr s)))) (\<lambda>newElement1.
     assign_attribute newElement1 elementType ''lon''
       (bindE (toString_method lon) (\<lambda>s. Inr (JStr s)))))"

text \<open>
  \<^verbatim>\<open>getCurrentIsoTimestamp\<close> lives in \<^verbatim>\<open>helpers/time\<close>, which is not among the
  sources, and reads the clock: the string it returns is the parameter \<open>now\<close>.
\<close>

definition setTimestampToNow :: "string \<Rightarrow> jsval \<Rightarrow> js_error + jsval" where
  "setTimestampToNow now element =
     bindE (get_prop element ''_type'') (\<lambda>elementType.
     let newElement = simpleObjectDeepClone element in
     assign_attribute newElement elementType ''timestamp'' (Inr (JStr now)))"

subsection \<open>parseInt\<close>

text \<open>
  The white space that \<^verbatim>\<open>parseInt\<close> skips, among the code units below 256: tab, line
  feed, vertical tab, form feed, carriage return, space and the no-break space U+00A0.
\<close>

definition is_space :: "char \<Rightarrow> bool" where
  "is_space c = ((of_char c :: nat) \<in> {9, 10, 11, 12, 13, 32, 160})"

definition hex_val :: "char \<Rightarrow> nat option" where
  "hex_val c =
     (let n = (of_char c :: nat) in
      if 48 \<le> n \<and> n \<le> 57 then Some (n - 48)
      else if 97 \<le> n \<and> n \<le> 102 then Some (n - 87)
      else if 65 \<le> n \<and> n \<le> 70 then Some (n - 55)
      else None)"

text \<open>The integer that a run of digits denotes, however long the run.\<close>

definition int_of_digits :: "string \<Rightarrow> int" where
  "int_of_digits s = foldl (\<lambda>a c. 10 * a + int (digit_val c)) 0 s"

definition int_of_hex :: "string \<Rightarrow> int" where
  "int_of_hex s = foldl (\<lambda>a c. 16 * a + (case hex_val c of Some d \<Rightarrow> int d | None \<Rightarrow> 0)) 0 s"

function decimal :: "int \<Rightarrow> string" where
  "decimal m =
     (if m < 10 then [digit_char (nat m)]
      else decimal (m div 10) @ [digit_char (nat (m mod 10))])"
  by pat_completeness auto

termination decimal
  by (relation "measure nat") auto

declare decimal.simps [simp del]

function bit_length :: "int \<Rightarrow> nat" where
  "bit_length m = (if m \<le> 0 then 0 else Suc (bit_length (m div 2)))"
  by pat_completeness auto

termination bit_length
  by (relation "measure nat") auto

declare bit_length.simps [simp del]

text \<open>
  A Number is a double: \<^verbatim>\<open>parseInt\<close> returns the Number nearest to the integer it has
  read. An integer below \<open>2^53\<close> is a Number. A greater one is rounded to 53 significant
  bits, to the nearest such value and to the one with an even last bit when it is half way
  between two; from \<open>2^1024 - 2^970\<close> on the result is \<^verbatim>\<open>Infinity\<close>, here \<open>None\<close>.
\<close>

definition nearest_double :: "int \<Rightarrow> int option" where
  "nearest_double n =
     (if n < 2 ^ 53 then Some n
      else let e = bit_length n - 53;
               q = n div 2 ^ e;
               r = n mod 2 ^ e;
               q' = (if 2 * r < 2 ^ e \<or> (2 * r = 2 ^ e \<and> even q) then q else q + 1);
               m = q' * 2 ^ e
           in if m < 2 ^ 1024 then Some m else None)"

text \<open>
  \<^verbatim>\<open>Number.prototype.toString\<close> on a positive integer Number \<open>m\<close>. Below \<open>2^53\<close> it is
  the decimal numeral of \<open>m\<close>. From there on it shows the decimal with the fewest
  significant digits that still denotes \<open>m\<close>, that is, whose nearest Number is \<open>m\<close>, and
  among those of that length the one nearest to \<open>m\<close>: \<open>candidates m j\<close> are the two
  multiples of \<open>10^j\<close> around \<open>m\<close> that qualify, the nearer one first. The digits are
  followed by zeros up to 21 digits; a longer number is written with an exponent.
\<close>

definition candidates :: "int \<Rightarrow> nat \<Rightarrow> int list" where
  "candidates m j =
     (let p = 10 ^ j; lo = (m div p) * p; hi = lo + p
      in filter (\<lambda>c. nearest_double c = Some m) (if m - lo \<le> hi - m then [lo, hi] else [hi, lo]))"

definition shortest :: "int \<Rightarrow> int" where
  "shortest m =
     (case concat (map (candidates m) (rev [0..<length (decimal m)])) of
        c # cs \<Rightarrow> c
      | [] \<Rightarrow> m)"

definition strip_zeros :: "string \<Rightarrow> string" where
  "strip_zeros s = rev (dropWhile (\<lambda>c. c = CHR ''0'') (rev s))"

definition integer_text :: "int \<Rightarrow> string" where
  "integer_text m =
     (if m < 2 ^ 53 then decimal m
      else let ds = decimal (shortest m); n = length ds; sig = strip_zeros ds
           in if n \<le> 21 then ds
              else (if length sig = 1 then sig else hd sig # CHR ''.'' # tl sig) @
                   ''e+'' @ dec (n - 1))"

text \<open>What is left of a string after the leading white space and one sign.\<close>

definition after_sign :: "string \<Rightarrow> string" where
  "after_sign s =
     (let t = dropWhile is_space s
      in if t \<noteq> [] \<and> (hd t = CHR ''-'' \<or> hd t = CHR ''+'') then tl t else t)"

text \<open>
  \<^verbatim>\<open>parseInt(s)\<close> without a radix, on a string: leading white space is skipped, a sign
  is read, a prefix \<^verbatim>\<open>0x\<close> selects base sixteen, and the longest run of digits is the
  integer read; without a digit the result is \<^verbatim>\<open>NaN\<close>. The result is the Number
  nearest to that integer, with the sign, given as the text the Number prints as (zero
  prints as \<^verbatim>\<open>0\<close> with either sign).
\<close>

definition parseInt_string :: "string \<Rightarrow> string" where
  "parseInt_string s =
     (let t = dropWhile is_space s;
          negative = (t \<noteq> [] \<and> hd t = CHR ''-'');
          u = after_sign s;
          hex = (take 2 u = ''0x'' \<or> take 2 u = ''0X'');
          ds = (if hex then takeWhile (\<lambda>c. hex_val c \<noteq> None) (drop 2 u)
                else takeWhile is_digit u);
          n = (if hex then int_of_hex ds else int_of_digits ds)
      in if ds = [] then ''NaN''
         else if n = 0 then ''0''
         else (if negative then ''-'' else []) @
              (case nearest_double n of
                 None \<Rightarrow> ''Infinity''
               | Some m \<Rightarrow> integer_text m))"

definition parseInt :: "jsval \<Rightarrow> js_error + jsval" where
  "parseInt x = bindE (ToString x) (\<lambda>s. Inr (JNum (parseInt_string s)))"

definition setVersion :: "jsval \<Rightarrow> jsval \<Rightarrow> js_error + jsval" where
  "setVersion element version =
     bindE (get_prop element ''_type'') (\<lambda>elementType.
     let newElement = simpleObjectDeepClone element in
     bindE (inner_element newElement elementType) (\<lambda>innerElement.
     bindE (get_prop innerElement ''$'') (\<lambda>attrs.
     bindE (parseInt version) (\<lambda>n.
     bindE (toString_method n) (\<lambda>s.
     bindE (set_prop attrs ''version'' (JStr s)) (\<lambda>attrs'.
     store_inner newElement elementType (put_child innerElement ''$'' attrs')))))))"

section \<open>Elements and what is observed of them\<close>

text \<open>
  An element is a document of the shape that the XML parser and
  \<^verbatim>\<open>createNodeElement\<close> produce: \<^verbatim>\<open>{ osm: { <type>: [ inner, ... ] }, _type: <type> }\<close>
  where \<^verbatim>\<open>inner\<close> is an object whose property \<^verbatim>\<open>tag\<close>, when it is there, is an
  array of tags, and a tag is an object whose property \<^verbatim>\<open>$\<close> is an object.
\<close>

definition is_tag :: "jsval \<Rightarrow> bool" where
  "is_tag t =
     (case t of
        JObj ps \<Rightarrow> (case map_of ps ''$'' of Some (JObj as) \<Rightarrow> True | _ \<Rightarrow> False)
      | _ \<Rightarrow> False)"

definition tags_ok :: "(string \<times> jsval) list \<Rightarrow> bool" where
  "tags_ok rs =
     (case map_of rs ''tag'' of
        None \<Rightarrow> True
      | Some (JArr ts) \<Rightarrow> list_all is_tag ts
      | Some _ \<Rightarrow> False)"

definition is_element :: "jsval \<Rightarrow> bool" where
  "is_element e =
     (case e of
        JObj ps \<Rightarrow>
          (case map_of ps ''_type'' of
             Some (JStr t) \<Rightarrow>
               (case map_of ps ''osm'' of
                  Some (JObj qs) \<Rightarrow>
                    (case map_of qs t of
                       Some (JArr (JObj rs # rest)) \<Rightarrow> tags_ok rs
                     | _ \<Rightarrow> False)
                | _ \<Rightarrow> False)
           | _ \<Rightarrow> False)
      | _ \<Rightarrow> False)"

text \<open>The inner object \<^verbatim>\<open>element.osm[element._type][0]\<close> of an element.\<close>

definition element_inner :: "jsval \<Rightarrow> js_error + jsval" where
  "element_inner e = bindE (get_prop e ''_type'') (\<lambda>t. inner_element e t)"

text \<open>The value of the property \<^verbatim>\<open>tag\<close> of the inner object, \<^verbatim>\<open>undefined\<close> when
  there is none.\<close>

definition element_tag_prop :: "jsval \<Rightarrow> jsval" where
  "element_tag_prop e =
     (case bindE (element_inner e) (\<lambda>inner. get_prop inner ''tag'') of
        Inr x \<Rightarrow> x
      | Inl _ \<Rightarrow> JUndefined)"

definition has_tag_array :: "jsval \<Rightarrow> bool" where
  "has_tag_array e = (case element_tag_prop e of JArr ts \<Rightarrow> True | _ \<Rightarrow> False)"

text \<open>The tags of an element, in order; none when there is no tag array.\<close>

definition element_tags :: "jsval \<Rightarrow> jsval list" where
  "element_tags e = (case element_tag_prop e of JArr ts \<Rightarrow> ts | _ \<Rightarrow> [])"

definition tag_key :: "jsval \<Rightarrow> jsval" where
  "tag_key t = (case tag_dollar_k t of Inr k \<Rightarrow> k | Inl _ \<Rightarrow> JUndefined)"

definition tag_value :: "jsval \<Rightarrow> jsval" where
  "tag_value t =
     (case bindE (get_prop t ''$'') (\<lambda>d. get_prop d ''v'') of
        Inr v \<Rightarrow> v
      | Inl _ \<Rightarrow> JUndefined)"

definition tag_keys :: "jsval \<Rightarrow> jsval list" where
  "tag_keys e = map tag_key (element_tags e)"

text \<open>The attribute object \<^verbatim>\<open>$\<close> of the inner object, and one attribute of it.\<close>

definition element_attrs :: "jsval \<Rightarrow> js_error + jsval" where
  "element_attrs e = bindE (element_inner e) (\<lambda>inner. get_prop inner ''$'')"

definition has_attrs :: "jsval \<Rightarrow> bool" where
  "has_attrs e = (case element_attrs e of Inr (JObj as) \<Rightarrow> True | _ \<Rightarrow> False)"

definition element_attr :: "jsval \<Rightarrow> string \<Rightarrow> jsval" where
  "element_attr e name =
     (case bindE (element_attrs e) (\<lambda>d. get_prop d name) of
        Inr x \<Rightarrow> x
      | Inl _ \<Rightarrow> JUndefined)"

text \<open>
  \<open>same_except path targets a b\<close>: the documents \<open>a\<close> and \<open>b\<close> agree on every property
  that is not on \<open>path\<close>, and the objects at the end of \<open>path\<close> agree on every property
  that is not among \<open>targets\<close>.
\<close>

fun same_except :: "string list \<Rightarrow> string set \<Rightarrow> jsval \<Rightarrow> jsval \<Rightarrow> bool" where
  "same_except [] targets a b = (\<forall>key. key \<notin> targets \<longrightarrow> get_prop a key = get_prop b key)"
| "same_except (p # path) targets a b =
     ((\<forall>key. key \<noteq> p \<longrightarrow> get_prop a key = get_prop b key) \<and>
      (\<exists>x y. get_prop a p = Inr x \<and> get_prop b p = Inr y \<and> same_except path targets x y))"

text \<open>The path from an element to its inner object.\<close>

definition inner_path :: "jsval \<Rightarrow> string list" where
  "inner_path e =
     (case bindE (get_prop e ''_type'') ToString of
        Inr t \<Rightarrow> [''osm'', t, ''0'']
      | Inl _ \<Rightarrow> [])"

text \<open>A value is stringable when its \<^verbatim>\<open>toString\<close> method returns, and then
  \<^verbatim>\<open>the_string\<close> is what it returns. In a properties object the keys are pairwise
  different and every value is stringable.\<close>

definition stringable :: "jsval \<Rightarrow> bool" where
  "stringable x = (case toString_method x of Inr s \<Rightarrow> True | Inl _ \<Rightarrow> False)"

definition the_string :: "jsval \<Rightarrow> string" where
  "the_string x = (case toString_method x of Inr s \<Rightarrow> s | Inl _ \<Rightarrow> [])"

definition is_properties :: "(string \<times> jsval) list \<Rightarrow> bool" where
  "is_properties ps = (distinct (map fst ps) \<and> list_all (\<lambda>p. stringable (snd p)) ps)"

section \<open>The store model: objects with identity\<close>

text \<open>
  Whether a helper changes its argument, and whether its result shares an object with
  it, cannot be said of values. In the store model an object or array is a cell of a
  store, a value is a primitive or the address of a cell, and two values denote the same
  object when they are the same address. The store is the list of its cells; creating an
  object appends a cell.
\<close>

type_synonym addr = nat

datatype hval =
    HUndefined
  | HNull
  | HBool bool
  | HNum string
  | HStr string
  | HRef addr

datatype cell = CObj "(string \<times> hval) list" | CArr "hval list"

type_synonym store = "cell list"

definition h_alloc :: "store \<Rightarrow> cell \<Rightarrow> hval \<times> store" where
  "h_alloc h c = (HRef (length h), h @ [c])"

text \<open>Reading a property. An address beyond the store denotes nothing; a store built by
  allocation has none, and reading through one is reported as \<open>Unsupported\<close>.\<close>

definition h_get :: "store \<Rightarrow> hval \<Rightarrow> string \<Rightarrow> js_error + hval" where
  "h_get h x key =
     (case x of
        HUndefined \<Rightarrow> Inl TypeError
      | HNull \<Rightarrow> Inl TypeError
      | HRef a \<Rightarrow>
          (if a < length h then
             (case h ! a of
                CObj ps \<Rightarrow> Inr (case map_of ps key of Some v \<Rightarrow> v | None \<Rightarrow> HUndefined)
              | CArr xs \<Rightarrow>
                  Inr (if key = ''length'' then HNum (dec (length xs))
                       else case array_index key of
                              Some i \<Rightarrow> if i < length xs then xs ! i else HUndefined
                            | None \<Rightarrow> HUndefined))
           else Inl Unsupported)
      | HStr s \<Rightarrow>
          Inr (if key = ''length'' then HNum (dec (length s))
               else case array_index key of
                      Some i \<Rightarrow> if i < length s then HStr [s ! i] else HUndefined
                    | None \<Rightarrow> HUndefined)
      | HBool b \<Rightarrow> Inr HUndefined
      | HNum n \<Rightarrow> Inr HUndefined)"

text \<open>The assignment \<^verbatim>\<open>x.key = v\<close> writes the cell of \<open>x\<close> in place.\<close>

definition h_set :: "store \<Rightarrow> hval \<Rightarrow> string \<Rightarrow> hval \<Rightarrow> js_error + store" where
  "h_set h x key v =
     (case x of
        HRef a \<Rightarrow>
          (if a < length h then
             (case h ! a of
                CObj ps \<Rightarrow> Inr (h[a := CObj (AList.update key v ps)])
              | CArr xs \<Rightarrow> Inl Unsupported)
           else Inl Unsupported)
      | _ \<Rightarrow> Inl TypeError)"

definition h_truthy :: "hval \<Rightarrow> bool" where
  "h_truthy x =
     (case x of
        HUndefined \<Rightarrow> False
      | HNull \<Rightarrow> False
      | HBool b \<Rightarrow> b
      | HNum n \<Rightarrow> n \<noteq> ''0'' \<and> n \<noteq> ''NaN''
      | HStr s \<Rightarrow> s \<noteq> []
      | HRef a \<Rightarrow> True)"

text \<open>Strict equality: two objects are equal when they are the same cell.\<close>

fun h_strict_eq :: "hval \<Rightarrow> hval \<Rightarrow> bool" where
  "h_strict_eq HUndefined HUndefined = True"
| "h_strict_eq HNull HNull = True"
| "h_strict_eq (HBool a) (HBool b) = (a = b)"
| "h_strict_eq (HNum a) (HNum b) = (a = b \<and> a \<noteq> ''NaN'')"
| "h_strict_eq (HStr a) (HStr b) = (a = b)"
| "h_strict_eq (HRef a) (HRef b) = (a = b)"
| "h_strict_eq _ _ = False"


text \<open>
  \<^verbatim>\<open>ToString\<close> follows the items of an array through the store. The first argument
  bounds the depth; a store of \<open>n\<close> cells without a cycle has no path longer than \<open>n\<close>,
  and the helpers convert only after the copy, which fails on a cycle.
\<close>

fun h_ToString :: "nat \<Rightarrow> store \<Rightarrow> hval \<Rightarrow> js_error + string"
  and h_ToString_items :: "nat \<Rightarrow> store \<Rightarrow> hval list \<Rightarrow> js_error + string list" where
  "h_ToString fuel h HUndefined = Inr ''undefined''"
| "h_ToString fuel h HNull = Inr ''null''"
| "h_ToString fuel h (HBool b) = Inr (if b then ''true'' else ''false'')"
| "h_ToString fuel h (HNum n) = Inr n"
| "h_ToString fuel h (HStr s) = Inr s"
| "h_ToString 0 h (HRef a) = Inl Unsupported"
| "h_ToString (Suc fuel) h (HRef a) =
     (if a < length h then
        (case h ! a of
           CObj ps \<Rightarrow>
             (if map_of ps ''toString'' = None then Inr ''[object Object]'' else Inl TypeError)
         | CArr xs \<Rightarrow> bindE (h_ToString_items fuel h xs) (\<lambda>ss. Inr (join_with '','' ss)))
      else Inl Unsupported)"
| "h_ToString_items fuel h [] = Inr []"
| "h_ToString_items fuel h (x # xs) =
     bindE (if x = HUndefined \<or> x = HNull then Inr [] else h_ToString fuel h x)
       (\<lambda>s. bindE (h_ToString_items fuel h xs) (\<lambda>ss. Inr (s # ss)))"

definition h_toString_method :: "store \<Rightarrow> hval \<Rightarrow> js_error + string" where
  "h_toString_method h x =
     (if x = HUndefined \<or> x = HNull then Inl TypeError else h_ToString (length h) h x)"


text \<open>The items of \<open>x\<close> when \<open>x\<close> is an array, for \<^verbatim>\<open>x.filter(cb)\<close>.\<close>

definition h_array_items :: "store \<Rightarrow> hval \<Rightarrow> js_error + hval list" where
  "h_array_items h x =
     (case x of
        HRef a \<Rightarrow>
          (if a < length h then
             (case h ! a of CArr xs \<Rightarrow> Inr xs | CObj ps \<Rightarrow> Inl TypeError)
           else Inl Unsupported)
      | _ \<Rightarrow> Inl TypeError)"

text \<open>
  Modelled from the spec: \<^verbatim>\<open>simpleObjectDeepClone\<close> (in \<^verbatim>\<open>helpers/utils\<close>, not among
  the sources) makes a deep copy. In the store that is a new cell for every object and
  array met on the way down from the argument, holding the copies of what the old cell
  holds; primitives are copied as they are. The copy of a document that contains itself
  does not exist: the depth bound (the number of cells) is then used up and the copy
  fails.
\<close>

fun h_clone :: "nat \<Rightarrow> store \<Rightarrow> hval \<Rightarrow> (js_error + hval) \<times> store"
  and h_clone_list :: "nat \<Rightarrow> store \<Rightarrow> hval list \<Rightarrow> (js_error + hval list) \<times> store" where
  "h_clone fuel h HUndefined = (Inr HUndefined, h)"
| "h_clone fuel h HNull = (Inr HNull, h)"
| "h_clone fuel h (HBool b) = (Inr (HBool b), h)"
| "h_clone fuel h (HNum n) = (Inr (HNum n), h)"
| "h_clone fuel h (HStr s) = (Inr (HStr s), h)"
| "h_clone 0 h (HRef a) = (Inl TypeError, h)"
| "h_clone (Suc fuel) h (HRef a) =
     (if a < length h then
        (case h ! a of
           CObj ps \<Rightarrow>
             (case h_clone_list fuel h (map snd ps) of
                (Inl e, h1) \<Rightarrow> (Inl e, h1)
              | (Inr vs, h1) \<Rightarrow> (Inr (HRef (length h1)), h1 @ [CObj (zip (map fst ps) vs)]))
         | CArr xs \<Rightarrow>
             (case h_clone_list fuel h xs of
                (Inl e, h1) \<Rightarrow> (Inl e, h1)
              | (Inr vs, h1) \<Rightarrow> (Inr (HRef (length h1)), h1 @ [CArr vs])))
      else (Inl Unsupported, h))"
| "h_clone_list fuel h [] = (Inr [], h)"
| "h_clone_list fuel h (v # vs) =
     (case h_clone fuel h v of
        (Inl e, h1) \<Rightarrow> (Inl e, h1)
      | (Inr v', h1) \<Rightarrow>
          (case h_clone_list fuel h1 vs of
             (Inl e, h2) \<Rightarrow> (Inl e, h2)
           | (Inr vs', h2) \<Rightarrow> (Inr (v' # vs'), h2)))"

definition h_simpleObjectDeepClone :: "store \<Rightarrow> hval \<Rightarrow> (js_error + hval) \<times> store" where
  "h_simpleObjectDeepClone h x = h_clone (length h) h x"

subsection \<open>The element helpers on the store\<close>

text \<open>A step either throws, leaving the store as it is at that moment, or hands its
  result and the store on to the rest of the function.\<close>

definition bindS ::
  "(js_error + 'a) \<times> store \<Rightarrow> ('a \<Rightarrow> store \<Rightarrow> (js_error + 'b) \<times> store) \<Rightarrow> (js_error + 'b) \<times> store" where
  "bindS m f = (case m of (Inl e, h) \<Rightarrow> (Inl e, h) | (Inr x, h) \<Rightarrow> f x h)"

definition allocS :: "store \<Rightarrow> cell \<Rightarrow> (js_error + hval) \<times> store" where
  "allocS h c = (case h_alloc h c of (r, h') \<Rightarrow> (Inr r, h'))"

definition setS :: "store \<Rightarrow> hval \<Rightarrow> string \<Rightarrow> hval \<Rightarrow> (js_error + unit) \<times> store" where
  "setS h x key v = (case h_set h x key v of Inl e \<Rightarrow> (Inl e, h) | Inr h' \<Rightarrow> (Inr (), h'))"

definition h_inner_element :: "store \<Rightarrow> hval \<Rightarrow> hval \<Rightarrow> js_error + hval" where
  "h_inner_element h newElement elementType =
     bindE (h_get h newElement ''osm'') (\<lambda>osm.
     bindE (h_ToString (length h) h elementType) (\<lambda>key.
     bindE (h_get h osm key) (\<lambda>items.
     h_get h items ''0'')))"

definition h_tag_dollar_k :: "store \<Rightarrow> hval \<Rightarrow> js_error + hval" where
  "h_tag_dollar_k h t = bindE (h_get h t ''$'') (\<lambda>d. h_get h d ''k'')"

text \<open>\<^verbatim>\<open>x.filter(cb)\<close> returns a new array.\<close>

definition h_filter :: "store \<Rightarrow> hval \<Rightarrow> (hval \<Rightarrow> js_error + bool) \<Rightarrow> (js_error + hval) \<times> store" where
  "h_filter h x cb =
     bindS (h_array_items h x, h) (\<lambda>xs h.
     bindS (filterE cb xs, h) (\<lambda>ys h.
     allocS h (CArr ys)))"

text \<open>The object literal \<^verbatim>\<open>{ $: { k: k, v: v } }\<close> creates two objects.\<close>

definition h_tag_object :: "store \<Rightarrow> string \<Rightarrow> string \<Rightarrow> (js_error + hval) \<times> store" where
  "h_tag_object h k v =
     bindS (allocS h (CObj [(''k'', HStr k), (''v'', HStr v)])) (\<lambda>attrs h.
     allocS h (CObj [(''$'', attrs)]))"

definition h_setProperty :: "store \<Rightarrow> hval \<Rightarrow> hval \<Rightarrow> hval \<Rightarrow> (js_error + hval) \<times> store" where
  "h_setProperty h element propertyName propertyValue =
     bindS (h_get h element ''_type'', h) (\<lambda>elementType h.
     bindS (h_simpleObjectDeepClone h element) (\<lambda>newElement h.
     bindS (h_inner_element h newElement elementType, h) (\<lambda>innerElement h.
     bindS (h_get h innerElement ''tag'', h) (\<lambda>tag h.
     bindS (if h_truthy tag
            then h_filter h tag (\<lambda>t.
                   bindE (h_tag_dollar_k h t) (\<lambda>k.
                   bindE (h_toString_method h propertyName) (\<lambda>name.
                   Inr (\<not> h_strict_eq k (HStr name)))))
            else allocS h (CArr [])) (\<lambda>filteredTags h.
     bindS (h_array_items h filteredTags, h) (\<lambda>items h.
     bindS (h_toString_method h propertyName, h) (\<lambda>k h.
     bindS (h_toString_method h propertyValue, h) (\<lambda>v h.
     bindS (h_tag_object h k v) (\<lambda>tagObject h.
     bindS (allocS h (CArr (items @ [tagObject]))) (\<lambda>tags h.
     bindS (setS h innerElement ''tag'' tags) (\<lambda>u h.
     (Inr newElement, h))))))))))))"








subsection \<open>What a value reaches in a store\<close>

definition cell_values :: "cell \<Rightarrow> hval list" where
  "cell_values c = (case c of CObj ps \<Rightarrow> map snd ps | CArr xs \<Rightarrow> xs)"

text \<open>\<open>reaches h x a\<close>: the cell at address \<open>a\<close> is the object \<open>x\<close> or part of it.\<close>

inductive reaches :: "store \<Rightarrow> hval \<Rightarrow> addr \<Rightarrow> bool" for h :: store where
  here: "reaches h (HRef a) a"
| step: "reaches h x a \<Longrightarrow> a < length h \<Longrightarrow> HRef b \<in> set (cell_values (h ! a)) \<Longrightarrow> reaches h x b"

text \<open>
  The document that a value denotes in a store, when the depth bound suffices.
\<close>

fun h_document :: "nat \<Rightarrow> store \<Rightarrow> hval \<Rightarrow> jsval option"
  and h_documents :: "nat \<Rightarrow> store \<Rightarrow> hval list \<Rightarrow> jsval list option" where
  "h_document fuel h HUndefined = Some JUndefined"
| "h_document fuel h HNull = Some JNull"
| "h_document fuel h (HBool b) = Some (JBool b)"
| "h_document fuel h (HNum n) = Some (JNum n)"
| "h_document fuel h (HStr s) = Some (JStr s)"
| "h_document 0 h (HRef a) = None"
| "h_document (Suc fuel) h (HRef a) =
     (if a < length h then
        (case h ! a of
           CObj ps \<Rightarrow>
             (case h_documents fuel h (map snd ps) of
                None \<Rightarrow> None
              | Some vs \<Rightarrow> Some (JObj (zip (map fst ps) vs)))
         | CArr xs \<Rightarrow>
             (case h_documents fuel h xs of None \<Rightarrow> None | Some vs \<Rightarrow> Some (JArr vs)))
      else None)"
| "h_documents fuel h [] = Some []"
| "h_documents fuel h (x # xs) =
     (case h_document fuel h x of
        None \<Rightarrow> None
      | Some v \<Rightarrow> (case h_documents fuel h xs of None \<Rightarrow> None | Some vs \<Rightarrow> Some (v # vs)))"

text \<open>
  A store is well formed when every address in it denotes a cell, and a value is at home
  in a store when it is a primitive or such an address.
\<close>

definition in_store :: "store \<Rightarrow> hval \<Rightarrow> bool" where
  "in_store h x = (case x of HRef b \<Rightarrow> b < length h | _ \<Rightarrow> True)"

definition wf_store :: "store \<Rightarrow> bool" where
  "wf_store h = list_all (\<lambda>c. list_all (in_store h) (cell_values c)) h"

text \<open>
  What copy-on-write means for one call that starts in the store \<open>h\<close> and ends with the
  result \<open>r\<close> in the store \<open>h'\<close>: every cell of \<open>h\<close> is in \<open>h'\<close> as it was, at its
  address; a value that was at home in \<open>h\<close> denotes in \<open>h'\<close> the document it denoted
  in \<open>h\<close>; and when the call returns a value, every cell the value reaches was created
  by the call, so that the result and the argument have no object in common.
\<close>

definition copy_on_write :: "store \<Rightarrow> (js_error + hval) \<times> store \<Rightarrow> bool" where
  "copy_on_write h m =
     (case m of (r, h') \<Rightarrow>
        length h \<le> length h' \<and>
        (\<forall>a < length h. h' ! a = h ! a) \<and>
        (wf_store h \<longrightarrow>
           (\<forall>x fuel. in_store h x \<longrightarrow> h_document fuel h' x = h_document fuel h x)) \<and>
        (\<forall>x a. r = Inr x \<longrightarrow> reaches h' x a \<longrightarrow> length h \<le> a))"

section \<open>The configuration\<close>

text \<open>
  Modelled from the spec: \<^verbatim>\<open>removeTrailingSlashes\<close> lives in \<^verbatim>\<open>helpers/utils\<close>,
  which is not among the sources. The specification says that the endpoint is normalised
  by stripping its trailing slashes.
\<close>

definition removeTrailingSlashes :: "string \<Rightarrow> string" where
  "removeTrailingSlashes s = rev (dropWhile (\<lambda>c. c = CHR ''/'') (rev s))"

text \<open>The own enumerable properties of a value, which an object spread copies.\<close>

definition own_properties :: "jsval \<Rightarrow> (string \<times> jsval) list" where
  "own_properties x =
     (case x of
        JObj ps \<Rightarrow> ps
      | JArr xs \<Rightarrow> zip (map dec [0..<length xs]) xs
      | JStr s \<Rightarrow> zip (map dec [0..<length s]) (map (\<lambda>c. JStr [c]) s)
      | _ \<Rightarrow> [])"

text \<open>\<^verbatim>\<open>{ ...a, ...b }\<close>: the properties of \<open>a\<close>, then those of \<open>b\<close> assigned one by
  one.\<close>

definition object_spread ::
  "(string \<times> jsval) list \<Rightarrow> (string \<times> jsval) list \<Rightarrow> (string \<times> jsval) list" where
  "object_spread a b = foldl (\<lambda>acc p. AList.update (fst p) (snd p) acc) a b"

text \<open>
  The instance: its field \<^verbatim>\<open>_options\<close>, and for \<^verbatim>\<open>_auth\<close> the object that the
  constructor hands to the OAuth library.
\<close>

record osm_request =
  priv_options :: "(string \<times> jsval) list"
  priv_auth :: "(string \<times> jsval) list"

definition option_value :: "(string \<times> jsval) list \<Rightarrow> string \<Rightarrow> jsval" where
  "option_value opts key = (case map_of opts key of Some v \<Rightarrow> v | None \<Rightarrow> JUndefined)"

text \<open>
  The constructor. Its first argument is the content of \<^verbatim>\<open>defaultOptions.json\<close>, which
  is not among the sources. An endpoint that is not a string cannot be normalised: the
  construction fails.
\<close>

definition OsmRequest :: "(string \<times> jsval) list \<Rightarrow> jsval \<Rightarrow> js_error + osm_request" where
  "OsmRequest defaultOptions options0 =
     (let options = (if options0 = JUndefined then JObj [] else options0);
          merged = object_spread defaultOptions (own_properties options)
      in case option_value merged ''endpoint'' of
           JStr url \<Rightarrow>
             (let opts = AList.update ''endpoint'' (JStr (removeTrailingSlashes url)) merged
              in Inr \<lparr>priv_options = opts,
                      priv_auth =
                        [(''url'', option_value opts ''endpoint''),
                         (''oauth_consumer_key'', option_value opts ''oauthConsumerKey''),
                         (''oauth_secret'', option_value opts ''oauthSecret''),
                         (''oauth_token'', option_value opts ''oauthUserToken''),
                         (''oauth_token_secret'', option_value opts ''oauthUserTokenSecret'')]\<rparr>)
         | _ \<Rightarrow> Inl TypeError)"

text \<open>The getter \<^verbatim>\<open>endpoint\<close>.\<close>

definition endpoint :: "osm_request \<Rightarrow> jsval" where
  "endpoint this = option_value (priv_options this) ''endpoint''"

text \<open>
  The request methods. Each hands \<^verbatim>\<open>this.endpoint\<close> (and, where it signs the request,
  \<^verbatim>\<open>this._auth\<close>) to a request builder of \<^verbatim>\<open>./requests\<close>, which is not among the
  sources and is the first parameter here. A parameter with a default takes it when the
  argument is \<^verbatim>\<open>undefined\<close>.
\<close>

definition default_to :: "jsval \<Rightarrow> jsval \<Rightarrow> jsval" where
  "default_to d x = (if x = JUndefined then d else x)"

definition fetchNotes ::
  "(jsval \<Rightarrow> jsval \<Rightarrow> jsval \<Rightarrow> jsval \<Rightarrow> jsval \<Rightarrow> jsval \<Rightarrow> jsval \<Rightarrow> 'r) \<Rightarrow>
   osm_request \<Rightarrow> jsval \<Rightarrow> jsval \<Rightarrow> jsval \<Rightarrow> jsval \<Rightarrow> jsval \<Rightarrow> jsval \<Rightarrow> 'r" where
  "fetchNotes fetchNotesRequest this left bottom right top' limit closedDays =
     fetchNotesRequest (endpoint this) left bottom right top'
       (default_to JNull limit) (default_to JNull closedDays)"

definition fetchNotesSearch ::
  "(jsval \<Rightarrow> jsval \<Rightarrow> jsval \<Rightarrow> jsval \<Rightarrow> jsval \<Rightarrow> jsval \<Rightarrow> jsval \<Rightarrow> jsval \<Rightarrow> jsval \<Rightarrow> 'r) \<Rightarrow>
   osm_request \<Rightarrow> jsval \<Rightarrow> jsval \<Rightarrow> jsval \<Rightarrow> jsval \<Rightarrow> jsval \<Rightarrow> jsval \<Rightarrow> jsval \<Rightarrow> jsval \<Rightarrow> 'r" where
  "fetchNotesSearch fetchNotesSearchRequest this q format limit closed' display_name user from to =
     fetchNotesSearchRequest (endpoint this) q (default_to (JStr ''xml'') format)
       (default_to JNull limit) (default_to JNull closed') (default_to JNull display_name)
       (default_to JNull user) (default_to JNull from) (default_to JNull to)"

definition fetchNote ::
  "(jsval \<Rightarrow> jsval \<Rightarrow> jsval \<Rightarrow> 'r) \<Rightarrow> osm_request \<Rightarrow> jsval \<Rightarrow> jsval \<Rightarrow> 'r" where
  "fetchNote fetchNoteByIdRequest this noteId format =
     fetchNoteByIdRequest (endpoint this) noteId (default_to (JStr ''xml'') format)"

definition createNote ::
  "((string \<times> jsval) list \<Rightarrow> jsval \<Rightarrow> jsval \<Rightarrow> jsval \<Rightarrow> jsval \<Rightarrow> 'r) \<Rightarrow>
   osm_request \<Rightarrow> jsval \<Rightarrow> jsval \<Rightarrow> jsval \<Rightarrow> 'r" where
  "createNote createNoteRequest this lat lon text_arg =
     createNoteRequest (priv_auth this) (endpoint this) lat lon text_arg"

definition commentNote ::
  "((string \<times> jsval) list \<Rightarrow> jsval \<Rightarrow> jsval \<Rightarrow> jsval \<Rightarrow> jsval \<Rightarrow> 'r) \<Rightarrow>
   osm_request \<Rightarrow> jsval \<Rightarrow> jsval \<Rightarrow> 'r" where
  "commentNote genericPostNoteRequest this noteId text_arg =
     genericPostNoteRequest (priv_auth this) (endpoint this) noteId text_arg (JStr ''comment'')"

definition closeNote ::
  "((string \<times> jsval) list \<Rightarrow> jsval \<Rightarrow> jsval \<Rightarrow> jsval \<Rightarrow> jsval \<Rightarrow> 'r) \<Rightarrow>
   osm_request \<Rightarrow> jsval \<Rightarrow> jsval \<Rightarrow> 'r" where
  "closeNote genericPostNoteRequest this noteId text_arg =
     genericPostNoteRequest (priv_auth this) (endpoint this) noteId text_arg (JStr ''close'')"

definition reopenNote ::
  "((string \<times> jsval) list \<Rightarrow> jsval \<Rightarrow> jsval \<Rightarrow> jsval \<Rightarrow> jsval \<Rightarrow> 'r) \<Rightarrow>
   osm_request \<Rightarrow> jsval \<Rightarrow> jsval \<Rightarrow> 'r" where
  "reopenNote genericPostNoteRequest this noteId text_arg =
     genericPostNoteRequest (priv_auth this) (endpoint this) noteId text_arg (JStr ''reopen'')"

definition createChangeset ::
  "((string \<times> jsval) list \<Rightarrow> jsval \<Rightarrow> jsval \<Rightarrow> jsval \<Rightarrow> 'r) \<Rightarrow>
   osm_request \<Rightarrow> jsval \<Rightarrow> jsval \<Rightarrow> 'r" where
  "createChangeset createChangesetRequest this createdBy comment =
     createChangesetRequest (priv_auth this) (endpoint this)
       (default_to (JStr []) createdBy) (default_to (JStr []) comment)"

definition isChangesetStillOpen ::
  "((string \<times> jsval) list \<Rightarrow> jsval \<Rightarrow> jsval \<Rightarrow> 'r) \<Rightarrow> osm_request \<Rightarrow> jsval \<Rightarrow> 'r" where
  "isChangesetStillOpen changesetCheckRequest this changesetId =
     changesetCheckRequest (priv_auth this) (endpoint this) changesetId"

definition updateChangesetTags ::
  "((string \<times> jsval) list \<Rightarrow> jsval \<Rightarrow> jsval \<Rightarrow> jsval \<Rightarrow> 'r) \<Rightarrow>
   osm_request \<Rightarrow> jsval \<Rightarrow> jsval \<Rightarrow> 'r" where
  "updateChangesetTags updateChangesetTagsRequest this changesetId object =
     updateChangesetTagsRequest (priv_auth this) (endpoint this) changesetId object"

definition fetchElement ::
  "(jsval \<Rightarrow> jsval \<Rightarrow> 'r) \<Rightarrow> (jsval \<Rightarrow> jsval \<Rightarrow> 'r) \<Rightarrow> osm_request \<Rightarrow> jsval \<Rightarrow> jsval \<Rightarrow> 'r" where
  "fetchElement fetchElementRequestFull fetchElementRequest this osmId options =
     (if truthy options \<and>
         (case get_prop options ''full'' of Inr full \<Rightarrow> truthy full | Inl e \<Rightarrow> False)
      then fetchElementRequestFull (endpoint this) osmId
      else fetchElementRequest (endpoint this) osmId)"

definition fetchRelationsForElement ::
  "(jsval \<Rightarrow> jsval \<Rightarrow> 'r) \<Rightarrow> osm_request \<Rightarrow> jsval \<Rightarrow> 'r" where
  "fetchRelationsForElement fetchRelationsForElementRequest this osmId =
     fetchRelationsForElementRequest (endpoint this) osmId"

definition fetchWaysForNode ::
  "(jsval \<Rightarrow> jsval \<Rightarrow> 'r) \<Rightarrow> osm_request \<Rightarrow> jsval \<Rightarrow> 'r" where
  "fetchWaysForNode fetchWaysForNodeRequest this osmId =
     fetchWaysForNodeRequest (endpoint this) osmId"

definition sendElement ::
  "((string \<times> jsval) list \<Rightarrow> jsval \<Rightarrow> jsval \<Rightarrow> jsval \<Rightarrow> 'r) \<Rightarrow>
   osm_request \<Rightarrow> jsval \<Rightarrow> jsval \<Rightarrow> 'r" where
  "sendElement sendElementRequest this element changesetId =
     sendElementRequest (priv_auth this) (endpoint this) element changesetId"

definition fetchMapByBbox ::
  "(jsval \<Rightarrow> jsval \<Rightarrow> jsval \<Rightarrow> jsval \<Rightarrow> jsval \<Rightarrow> 'r) \<Rightarrow>
   osm_request \<Rightarrow> jsval \<Rightarrow> jsval \<Rightarrow> jsval \<Rightarrow> jsval \<Rightarrow> 'r" where
  "fetchMapByBbox fetchMapByBboxRequest this left bottom right top' =
     fetchMapByBboxRequest (endpoint this) left bottom right top'"

definition deleteElement ::
  "((string \<times> jsval) list \<Rightarrow> jsval \<Rightarrow> jsval \<Rightarrow> jsval \<Rightarrow> 'r) \<Rightarrow>
   osm_request \<Rightarrow> jsval \<Rightarrow> jsval \<Rightarrow> 'r" where
  "deleteElement deleteElementRequest this element changesetId =
     deleteElementRequest (priv_auth this) (endpoint this) element changesetId"

definition getUserPreferences ::
  "((string \<times> jsval) list \<Rightarrow> jsval \<Rightarrow> 'r) \<Rightarrow> osm_request \<Rightarrow> 'r" where
  "getUserPreferences getUserPreferencesRequest this =
     getUserPreferencesRequest (priv_auth this) (endpoint this)"

definition setUserPreferences ::
  "((string \<times> jsval) list \<Rightarrow> jsval \<Rightarrow> jsval \<Rightarrow> 'r) \<Rightarrow> osm_request \<Rightarrow> jsval \<Rightarrow> 'r" where
  "setUserPreferences setUserPreferencesRequest this object =
     setUserPreferencesRequest (priv_auth this) (endpoint this) object"

definition getUserPreferenceByKey ::
  "((string \<times> jsval) list \<Rightarrow> jsval \<Rightarrow> jsval \<Rightarrow> 'r) \<Rightarrow> osm_request \<Rightarrow> jsval \<Rightarrow> 'r" where
  "getUserPreferenceByKey getUserPreferenceByKeyRequest this key =
     getUserPreferenceByKeyRequest (priv_auth this) (endpoint this) key"

definition setUserPreferenceByKey ::
  "((string \<times> jsval) list \<Rightarrow> jsval \<Rightarrow> jsval \<Rightarrow> jsval \<Rightarrow> 'r) \<Rightarrow>
   osm_request \<Rightarrow> jsval \<Rightarrow> jsval \<Rightarrow> 'r" where
  "setUserPreferenceByKey setUserPreferenceByKeyRequest this key v =
     setUserPreferenceByKeyRequest (priv_auth this) (endpoint this) key v"

definition deleteUserPreference ::
  "((string \<times> jsval) list \<Rightarrow> jsval \<Rightarrow> jsval \<Rightarrow> 'r) \<Rightarrow> osm_request \<Rightarrow> jsval \<Rightarrow> 'r" where
  "deleteUserPreference deleteUserPreferenceRequest this key =
     deleteUserPreferenceRequest (priv_auth this) (endpoint this) key"

section \<open>Examples\<close>

text \<open>The node of the scenario: latitude 48.8, longitude 2.3, one tag
  \<^verbatim>\<open>name = Cafe\<close>.\<close>

definition example_node :: jsval where
  "example_node =
     JObj [(''osm'', JObj [(''$'', JObj []),
                           (''node'', JArr [JObj [(''$'', JObj [(''lat'', JNum ''48.8''),
                                                                (''lon'', JNum ''2.3'')]),
                                                  (''tag'', JArr [tag_object ''name'' ''Cafe''])]])]),
           (''_type'', JStr ''node'')]"

text \<open>The same node without its tag array.\<close>

definition example_untagged :: jsval where
  "example_untagged =
     JObj [(''osm'', JObj [(''$'', JObj []),
                           (''node'', JArr [JObj [(''$'', JObj [(''lat'', JNum ''48.8''),
                                                                (''lon'', JNum ''2.3'')])]])]),
           (''_type'', JStr ''node'')]"


section \<open>Notions of the proofs\<close>


text \<open>The tags that a properties object turns into.\<close>

definition props_tags :: "(string \<times> jsval) list \<Rightarrow> jsval list" where
  "props_tags ps = map (\<lambda>p. tag_object (fst p) (the_string (snd p))) ps"

text \<open>The parts of an element, and the element rebuilt around a new inner object.\<close>

definition elem_parts ::
  "jsval \<Rightarrow> (string \<times> jsval) list \<Rightarrow> string \<Rightarrow> (string \<times> jsval) list \<Rightarrow>
   (string \<times> jsval) list \<Rightarrow> jsval list \<Rightarrow> bool" where
  "elem_parts e ps t qs rs rest \<longleftrightarrow>
     e = JObj ps \<and> map_of ps ''_type'' = Some (JStr t) \<and> map_of ps ''osm'' = Some (JObj qs) \<and>
     map_of qs t = Some (JArr (JObj rs # rest))"

definition rebuild ::
  "(string \<times> jsval) list \<Rightarrow> string \<Rightarrow> (string \<times> jsval) list \<Rightarrow> jsval list \<Rightarrow> jsval \<Rightarrow> jsval" where
  "rebuild ps t qs rest x =
     JObj (AList.update ''osm'' (JObj (AList.update t (JArr (x # rest)) qs)) ps)"

definition tags_of :: "(string \<times> jsval) list \<Rightarrow> jsval list" where
  "tags_of rs = (case map_of rs ''tag'' of Some (JArr ts) \<Rightarrow> ts | _ \<Rightarrow> [])"

text \<open>
  In the store, with \<open>n\<close> the number of cells before the call: a value is fresh when it is
  not the address of one of those cells; the store is closed when the cells created since
  hold fresh values only; \<open>post n h P m\<close> says that the step \<open>m\<close>, started in \<open>h\<close>, has
  left the first \<open>n\<close> cells alone, ends in a closed store and, when it returns, returns a
  result that satisfies \<open>P\<close>.
\<close>

definition fresh :: "nat \<Rightarrow> hval \<Rightarrow> bool" where
  "fresh n x = (case x of HRef a \<Rightarrow> n \<le> a | _ \<Rightarrow> True)"

definition closed :: "nat \<Rightarrow> store \<Rightarrow> bool" where
  "closed n h =
     (n \<le> length h \<and>
      (\<forall>a. n \<le> a \<and> a < length h \<longrightarrow> list_all (fresh n) (cell_values (h ! a))))"

definition post :: "nat \<Rightarrow> store \<Rightarrow> ('a \<Rightarrow> bool) \<Rightarrow> (js_error + 'a) \<times> store \<Rightarrow> bool" where
  "post n h P m =
     (case m of (r, h') \<Rightarrow>
        length h \<le> length h' \<and> take n h' = take n h \<and> closed n h' \<and>
        (case r of Inr x \<Rightarrow> P x | Inl e \<Rightarrow> True))"

text \<open>
  What the copy of \<open>x\<close> must be: the step has only added cells to a well-formed store,
  \<open>x\<close> denotes a document, and the result denotes the same document.
\<close>

definition copy_ok :: "nat \<Rightarrow> store \<Rightarrow> hval \<Rightarrow> (js_error + hval) \<times> store \<Rightarrow> bool" where
  "copy_ok fuel h x m =
     (case m of (r, h') \<Rightarrow>
        wf_store h' \<and> length h \<le> length h' \<and> (\<forall>a < length h. h' ! a = h ! a) \<and>
        (case r of
           Inr y \<Rightarrow> in_store h' y \<and> h_document fuel h x \<noteq> None \<and>
                    h_document fuel h' y = h_document fuel h x
         | Inl e \<Rightarrow> True))"

definition copies_ok :: "nat \<Rightarrow> store \<Rightarrow> hval list \<Rightarrow> (js_error + hval list) \<times> store \<Rightarrow> bool" where
  "copies_ok fuel h xs m =
     (case m of (r, h') \<Rightarrow>
        wf_store h' \<and> length h \<le> length h' \<and> (\<forall>a < length h. h' ! a = h ! a) \<and>
        (case r of
           Inr ys \<Rightarrow> list_all (in_store h') ys \<and> h_documents fuel h xs \<noteq> None \<and>
                     h_documents fuel h' ys = h_documents fuel h xs
         | Inl e \<Rightarrow> True))"

section \<open>Properties of the model of values\<close>

subsection \<open>Steps that succeed\<close>


lemma bindE_Inr [simp]: "bindE (Inr x) f = f x" by (simp add: bindE_def)
lemma bindE_Inl [simp]: "bindE (Inl e) f = Inl e" by (simp add: bindE_def)
lemma bindE_eq_Inr: "bindE m f = Inr y \<longleftrightarrow> (\<exists>x. m = Inr x \<and> f x = Inr y)"
  by (cases m) simp_all

lemma get_prop_JObj:
  "get_prop (JObj ps) key = Inr (case map_of ps key of Some v \<Rightarrow> v | None \<Rightarrow> JUndefined)"
  by (simp add: get_prop_def)

lemma set_prop_JObj [simp]: "set_prop (JObj ps) key v = Inr (JObj (AList.update key v ps))"
  by (simp add: set_prop_def)

lemma array_filter_JArr [simp]: "array_filter (JArr xs) cb = filterE cb xs"
  by (simp add: array_filter_def)

lemma array_filter_undefined [simp]: "array_filter JUndefined cb = Inl TypeError"
  by (simp add: array_filter_def)

lemma array_index_0 [simp]: "array_index ''0'' = Some 0"
  by (simp add: array_index_def is_digit_def nat_of_digits_def digit_val_def)

lemma strict_eq_JStr [simp]: "strict_eq x (JStr s) = (x = JStr s)"
  by (cases x) auto

lemma is_element_parts:
  "is_element e \<longleftrightarrow> (\<exists>ps t qs rs rest. elem_parts e ps t qs rs rest \<and> tags_ok rs)"
  unfolding is_element_def elem_parts_def
  by (auto split: jsval.splits option.splits list.splits)

lemma parts_type: "elem_parts e ps t qs rs rest \<Longrightarrow> get_prop e ''_type'' = Inr (JStr t)"
  by (simp add: elem_parts_def get_prop_def)

lemma parts_inner: "elem_parts e ps t qs rs rest \<Longrightarrow> inner_element e (JStr t) = Inr (JObj rs)"
  by (simp add: elem_parts_def get_prop_def inner_element_def)

lemma parts_store: "elem_parts e ps t qs rs rest \<Longrightarrow> store_inner e (JStr t) x = Inr (rebuild ps t qs rest x)"
  by (simp add: elem_parts_def get_prop_def store_inner_def put_child_def rebuild_def)

lemma parts_rebuild: "elem_parts e ps t qs rs rest \<Longrightarrow>
   elem_parts (rebuild ps t qs rest (JObj rs')) (AList.update ''osm'' (JObj (AList.update t (JArr (JObj rs' # rest)) qs)) ps) t (AList.update t (JArr (JObj rs' # rest)) qs) rs' rest"
  by (simp add: elem_parts_def rebuild_def update_conv')


lemma is_tag_key: "is_tag t \<Longrightarrow> tag_dollar_k t = Inr (tag_key t)"
  by (auto simp: is_tag_def tag_key_def tag_dollar_k_def get_prop_def split: jsval.splits option.splits)

lemma filterE_tags:
  assumes "list_all is_tag ts" and "\<And>t. is_tag t \<Longrightarrow> cb t = Inr (Q t)"
  shows "filterE cb ts = Inr (filter Q ts)"
  using assms by (induction ts) simp_all

lemma parts_tag_filter:
  assumes "tags_ok rs" and "\<And>t. is_tag t \<Longrightarrow> cb t = Inr (Q t)"
  shows "bindE (get_prop (JObj rs) ''tag'') (\<lambda>tag.
           bindE (if truthy tag then array_filter tag cb else Inr []) f)
         = f (filter Q (tags_of rs))"
  using assms(1) filterE_tags [of _ cb Q, OF _ assms(2)]
  by (auto simp: tags_ok_def tags_of_def get_prop_def truthy_def array_filter_def
           split: option.splits jsval.splits)

lemma setProperty_result:
  assumes "elem_parts e ps t qs rs rest" "tags_ok rs"
    and "toString_method n = Inr k" "toString_method x = Inr v"
  shows "setProperty e n x =
     Inr (rebuild ps t qs rest
            (JObj (AList.update ''tag''
                     (JArr (filter (\<lambda>t. tag_key t \<noteq> JStr k) (tags_of rs) @ [tag_object k v])) rs)))"
proof -
  have cb: "\<And>t. is_tag t \<Longrightarrow>
      bindE (tag_dollar_k t) (\<lambda>k'. bindE (toString_method n) (\<lambda>name. Inr (\<not> strict_eq k' (JStr name))))
        = Inr (tag_key t \<noteq> JStr k)"
    by (simp add: is_tag_key assms(3))
  show ?thesis
    unfolding setProperty_def simpleObjectDeepClone_def Let_def
    by (simp add: parts_type [OF assms(1)] parts_inner [OF assms(1)] parts_store [OF assms(1)]
          parts_tag_filter [OF assms(2) cb] assms(3,4) set_prop_def)
qed

lemma mapE_props:
  assumes "list_all (\<lambda>p. stringable (snd p)) ps" "distinct (map fst ps)"
  shows "set names \<subseteq> fst ` set ps \<Longrightarrow> mapE (\<lambda>propertyName.
               bindE (get_prop (JObj ps) propertyName) (\<lambda>x.
               bindE (toString_method x) (\<lambda>v.
               Inr (tag_object propertyName v)))) names
     = Inr (map (\<lambda>k. tag_object k (the_string (the (map_of ps k)))) names)"
proof (induction names)
  case Nil
  then show ?case by simp
next
  case (Cons a names)
  then obtain x where x: "map_of ps a = Some x" "(a, x) \<in> set ps"
    using assms(2) by (auto simp: map_of_eq_Some_iff)
  then have "stringable x" using assms(1) by (auto simp: list_all_iff)
  then have "toString_method x = Inr (the_string x)"
    by (auto simp: stringable_def the_string_def split: sum.splits)
  with Cons x show ?case by (simp add: get_prop_JObj)
qed

lemma mapE_props_all:
  assumes "is_properties ps"
  shows "mapE (\<lambda>propertyName.
               bindE (get_prop (JObj ps) propertyName) (\<lambda>x.
               bindE (toString_method x) (\<lambda>v.
               Inr (tag_object propertyName v)))) (map fst ps) = Inr (props_tags ps)"
proof -
  have "map (\<lambda>k. tag_object k (the_string (the (map_of ps k)))) (map fst ps) = props_tags ps"
    using assms by (auto simp: props_tags_def is_properties_def)
  then show ?thesis
    using mapE_props [of ps "map fst ps"] assms by (simp add: is_properties_def)
qed

lemma setProperties_result:
  assumes "elem_parts e ps t qs rs rest" "tags_ok rs" "is_properties props"
  shows "setProperties e (JObj props) =
     Inr (rebuild ps t qs rest
            (JObj (AList.update ''tag''
                     (JArr (filter (\<lambda>t. \<not> array_includes (map fst props) (tag_key t)) (tags_of rs) @ props_tags props)) rs)))"
proof -
  have cb: "\<And>t. is_tag t \<Longrightarrow>
      bindE (tag_dollar_k t) (\<lambda>k. Inr (\<not> array_includes (map fst props) k))
        = Inr (\<not> array_includes (map fst props) (tag_key t))"
    by (simp add: is_tag_key)
  show ?thesis
    unfolding setProperties_def simpleObjectDeepClone_def Let_def
    by (simp add: parts_type [OF assms(1)] parts_inner [OF assms(1)] parts_store [OF assms(1)]
          parts_tag_filter [OF assms(2) cb] mapE_props_all [OF assms(3)] set_prop_def Object_keys_def)
qed

lemma removeProperty_result:
  assumes "elem_parts e ps t qs rs rest" "map_of rs ''tag'' = Some (JArr ts)" "list_all is_tag ts"
  shows "removeProperty e n =
     Inr (rebuild ps t qs rest
            (JObj (AList.update ''tag'' (JArr (filter (\<lambda>t. \<not> strict_eq (tag_key t) n) ts)) rs)))"
proof -
  have cb: "\<And>t. is_tag t \<Longrightarrow>
      bindE (tag_dollar_k t) (\<lambda>k. Inr (\<not> strict_eq k n)) = Inr (\<not> strict_eq (tag_key t) n)"
    by (simp add: is_tag_key)
  show ?thesis
    unfolding removeProperty_def simpleObjectDeepClone_def Let_def
    by (simp add: parts_type [OF assms(1)] parts_inner [OF assms(1)] parts_store [OF assms(1)]
          filterE_tags [OF assms(3) cb] assms(2) get_prop_JObj)
qed

lemma removeProperty_no_tag:
  assumes "elem_parts e ps t qs rs rest" "map_of rs ''tag'' = None"
  shows "removeProperty e n = Inl TypeError"
  unfolding removeProperty_def simpleObjectDeepClone_def Let_def
  by (simp add: parts_type [OF assms(1)] parts_inner [OF assms(1)] assms(2) get_prop_JObj)


lemma foldl_digits_ge: "a \<le> foldl (\<lambda>a c. 10 * a + digit_val c) a cs"
proof (induction cs arbitrary: a)
  case Nil
  show ?case by simp
next
  case (Cons c cs)
  have "a \<le> 10 * a + digit_val c" by simp
  also have "\<dots> \<le> foldl (\<lambda>a c. 10 * a + digit_val c) (10 * a + digit_val c) cs"
    by (rule Cons.IH)
  finally show ?case by simp
qed

lemma array_index_eq_0: "array_index key = Some 0 \<longleftrightarrow> key = ''0''"
proof
  assume h: "array_index key = Some 0"
  show "key = ''0''"
  proof (rule ccontr)
    assume n: "key \<noteq> ''0''"
    from h obtain c cs where k: "key = c # cs" "is_digit c" "c \<noteq> CHR ''0''" and z: "nat_of_digits key = 0"
      using n by (cases key) (auto simp: array_index_def split: if_splits)
    have "(of_char c :: nat) \<noteq> of_char CHR ''0''"
      using k(3) by (simp only: of_char_eq_iff, simp)
    then have "of_char c \<noteq> (48::nat)" by simp
    then have "1 \<le> digit_val c" using k(2) unfolding is_digit_def digit_val_def by linarith
    also have "\<dots> \<le> nat_of_digits key"
      using foldl_digits_ge [of "digit_val c" cs] by (simp add: nat_of_digits_def k(1))
    finally show False using z by simp
  qed
next
  assume "key = ''0''"
  then show "array_index key = Some 0" by simp
qed

lemma get_prop_JArr_Cons:
  "key \<noteq> ''0'' \<Longrightarrow> get_prop (JArr (x # rest)) key = get_prop (JArr (y # rest)) key"
proof -
  assume k: "key \<noteq> ''0''"
  show ?thesis
  proof (cases "array_index key")
    case None
    then show ?thesis by (simp add: get_prop_def)
  next
    case (Some i)
    with k have "i \<noteq> 0" using array_index_eq_0 [of key] by auto
    then obtain j where "i = Suc j" by (cases i) auto
    with Some show ?thesis by (simp add: get_prop_def)
  qed
qed

lemma get_prop_update_other:
  "key \<noteq> k \<Longrightarrow> get_prop (JObj (AList.update k v ps)) key = get_prop (JObj ps) key"
  by (simp add: get_prop_JObj update_conv')

lemma get_prop_update_same:
  "get_prop (JObj (AList.update k v ps)) k = Inr v"
  by (simp add: get_prop_JObj update_conv')

lemma get_prop_JArr_0: "get_prop (JArr (x # rest)) ''0'' = Inr x"
  by (simp add: get_prop_def)

lemma parts_same_except_inner:
  assumes "elem_parts e ps t qs rs rest"
    and "same_except path targets (JObj rs) x"
  shows "same_except (''osm'' # t # ''0'' # path) targets e (rebuild ps t qs rest x)"
proof -
  let ?qs' = "AList.update t (JArr (x # rest)) qs"
  from assms(1) have e: "e = JObj ps" and osm: "get_prop (JObj ps) ''osm'' = Inr (JObj qs)"
    and items: "get_prop (JObj qs) t = Inr (JArr (JObj rs # rest))"
    by (simp_all add: elem_parts_def get_prop_JObj)
  have l3: "same_except (''0'' # path) targets (JArr (JObj rs # rest)) (JArr (x # rest))"
    using assms(2) by (simp add: get_prop_JArr_0 get_prop_JArr_Cons [of _ "JObj rs" rest x])
  have l2: "same_except (t # ''0'' # path) targets (JObj qs) (JObj ?qs')"
    using l3 items by (simp add: get_prop_update_other get_prop_update_same)
  show ?thesis
    using l2 osm unfolding e rebuild_def
    by (simp add: get_prop_update_other get_prop_update_same)
qed

lemma same_except_update:
  assumes "name \<in> targets"
  shows "same_except [] targets (JObj as) (JObj (AList.update name v as))"
proof -
  have "\<And>key. key \<notin> targets \<Longrightarrow> key \<noteq> name" using assms by auto
  then show ?thesis by (simp add: get_prop_update_other)
qed

lemma same_except_update_child:
  assumes "get_prop (JObj rs) k = Inr c" "same_except path targets c c'"
  shows "same_except (k # path) targets (JObj rs) (JObj (AList.update k c' rs))"
  using assms by (simp add: get_prop_update_other get_prop_update_same)

lemma same_except_trans:
  "same_except path T1 a b \<Longrightarrow> same_except path T2 b c \<Longrightarrow> same_except path (T1 \<union> T2) a c"
proof (induction path arbitrary: a b c)
  case Nil
  then show ?case by simp
next
  case (Cons p path)
  then show ?case by (fastforce)
qed


lemma parts_element_inner: "elem_parts e ps t qs rs rest \<Longrightarrow> element_inner e = Inr (JObj rs)"
  by (simp add: element_inner_def parts_type parts_inner)

lemma parts_tag_prop:
  "elem_parts e ps t qs rs rest \<Longrightarrow>
   element_tag_prop e = (case map_of rs ''tag'' of Some v \<Rightarrow> v | None \<Rightarrow> JUndefined)"
  by (simp add: element_tag_prop_def parts_element_inner get_prop_JObj)

lemma parts_tags: "elem_parts e ps t qs rs rest \<Longrightarrow> tags_ok rs \<Longrightarrow> element_tags e = tags_of rs"
  by (auto simp: element_tags_def parts_tag_prop tags_of_def tags_ok_def split: option.splits jsval.splits)

lemma parts_attrs:
  "elem_parts e ps t qs rs rest \<Longrightarrow>
   element_attrs e = Inr (case map_of rs ''$'' of Some v \<Rightarrow> v | None \<Rightarrow> JUndefined)"
  by (simp add: element_attrs_def parts_element_inner get_prop_JObj)

lemma parts_path: "elem_parts e ps t qs rs rest \<Longrightarrow> inner_path e = [''osm'', t, ''0'']"
  by (simp add: inner_path_def parts_type)

lemma parts_is_element: "elem_parts e ps t qs rs rest \<Longrightarrow> tags_ok rs \<Longrightarrow> is_element e"
  unfolding is_element_parts by blast

lemma assign_attribute_result:
  assumes "elem_parts e ps t qs rs rest" "map_of rs ''$'' = Some (JObj as)"
  shows "assign_attribute e (JStr t) name (Inr v) =
     Inr (rebuild ps t qs rest (JObj (AList.update ''$'' (JObj (AList.update name v as)) rs)))"
  unfolding assign_attribute_def
  by (simp add: parts_inner [OF assms(1)] parts_store [OF assms(1)] get_prop_JObj assms(2) put_child_def)


subsection \<open>What is observed of the results\<close>

lemma tag_object_facts [simp]:
  "tag_key (tag_object k v) = JStr k" "tag_value (tag_object k v) = JStr v" "is_tag (tag_object k v)"
  by (simp_all add: tag_key_def tag_value_def tag_dollar_k_def tag_object_def is_tag_def get_prop_JObj)

lemma tags_of_update [simp]: "tags_of (AList.update ''tag'' (JArr ts) rs) = ts"
  by (simp add: tags_of_def update_conv')

lemma tags_ok_update [simp]: "tags_ok (AList.update ''tag'' (JArr ts) rs) = list_all is_tag ts"
  by (simp add: tags_ok_def update_conv')

lemma tags_ok_tags_of: "tags_ok rs \<Longrightarrow> list_all is_tag (tags_of rs)"
  by (auto simp: tags_ok_def tags_of_def split: option.splits jsval.splits)

text \<open>What is observed of an element whose tag array has been replaced.\<close>

lemma set_tags_facts:
  assumes p: "elem_parts e ps t qs rs rest" and ts: "list_all is_tag ts"
  defines "e' \<equiv> rebuild ps t qs rest (JObj (AList.update ''tag'' (JArr ts) rs))"
  shows "is_element e'" and "element_tags e' = ts" and "element_tag_prop e' = JArr ts"
    and "same_except (inner_path e) {''tag''} e e'"
    and "element_attrs e' = element_attrs e"
    and "elem_parts e' (AList.update ''osm'' (JObj (AList.update t (JArr (JObj (AList.update ''tag'' (JArr ts) rs) # rest)) qs)) ps)
           t (AList.update t (JArr (JObj (AList.update ''tag'' (JArr ts) rs) # rest)) qs)
           (AList.update ''tag'' (JArr ts) rs) rest"
proof -
  let ?rs' = "AList.update ''tag'' (JArr ts) rs"
  note p' = parts_rebuild [OF p, of ?rs', folded e'_def]
  show "elem_parts e' (AList.update ''osm'' (JObj (AList.update t (JArr (JObj ?rs' # rest)) qs)) ps)
           t (AList.update t (JArr (JObj ?rs' # rest)) qs) ?rs' rest" by (rule p')
  have ok: "tags_ok ?rs'" using ts by simp
  show "is_element e'" by (rule parts_is_element [OF p' ok])
  show "element_tags e' = ts" using parts_tags [OF p' ok] by simp
  show "element_tag_prop e' = JArr ts" using parts_tag_prop [OF p'] by (simp add: update_conv')
  show "same_except (inner_path e) {''tag''} e e'"
    unfolding parts_path [OF p] e'_def
    by (rule parts_same_except_inner [OF p]) (rule same_except_update, simp)
  show "element_attrs e' = element_attrs e"
    by (simp add: parts_attrs [OF p'] parts_attrs [OF p] update_conv')
qed

lemma is_element_cases:
  assumes "is_element e"
  obtains ps t qs rs rest where "elem_parts e ps t qs rs rest" "tags_ok rs"
  using assms unfolding is_element_parts by blast

lemma filter_tag_keys:
  "map tag_key (filter (\<lambda>t. P (tag_key t)) ts) = filter P (map tag_key ts)"
  by (induction ts) simp_all

lemma stringable_toString: "stringable x \<Longrightarrow> toString_method x = Inr (the_string x)"
  by (auto simp: stringable_def the_string_def split: sum.splits)

lemma tags_ok_update_other [simp]: "tags_ok (AList.update ''$'' x rs) = tags_ok rs"
  by (simp add: tags_ok_def update_conv')

lemma tags_of_update_other [simp]: "tags_of (AList.update ''$'' x rs) = tags_of rs"
  by (simp add: tags_of_def update_conv')

lemma has_attrs_parts:
  assumes "elem_parts e ps t qs rs rest" "has_attrs e"
  obtains as where "map_of rs ''$'' = Some (JObj as)"
  using assms(2) unfolding has_attrs_def parts_attrs [OF assms(1)]
  by (auto split: option.splits jsval.splits)

text \<open>What is observed of an element whose attribute object has been replaced.\<close>

lemma set_attrs_facts:
  assumes p: "elem_parts e ps t qs rs rest" and ok: "tags_ok rs"
    and a: "map_of rs ''$'' = Some (JObj as)"
    and s: "same_except [] targets (JObj as) (JObj as')"
  defines "e' \<equiv> rebuild ps t qs rest (JObj (AList.update ''$'' (JObj as') rs))"
  shows "is_element e'" and "element_tags e' = element_tags e"
    and "element_tag_prop e' = element_tag_prop e"
    and "same_except (inner_path e @ [''$'']) targets e e'"
    and "element_attrs e' = Inr (JObj as')"
    and "inner_path e' = inner_path e"
    and "elem_parts e' (AList.update ''osm'' (JObj (AList.update t (JArr (JObj (AList.update ''$'' (JObj as') rs) # rest)) qs)) ps)
           t (AList.update t (JArr (JObj (AList.update ''$'' (JObj as') rs) # rest)) qs)
           (AList.update ''$'' (JObj as') rs) rest"
proof -
  let ?rs' = "AList.update ''$'' (JObj as') rs"
  note p' = parts_rebuild [OF p, of ?rs', folded e'_def]
  show "elem_parts e' (AList.update ''osm'' (JObj (AList.update t (JArr (JObj ?rs' # rest)) qs)) ps)
           t (AList.update t (JArr (JObj ?rs' # rest)) qs) ?rs' rest" by (rule p')
  have ok': "tags_ok ?rs'" using ok by simp
  show "is_element e'" by (rule parts_is_element [OF p' ok'])
  show "element_tags e' = element_tags e" by (simp add: parts_tags [OF p' ok'] parts_tags [OF p ok])
  show "element_tag_prop e' = element_tag_prop e"
    by (simp add: parts_tag_prop [OF p'] parts_tag_prop [OF p] update_conv')
  have "get_prop (JObj rs) ''$'' = Inr (JObj as)" by (simp add: get_prop_JObj a)
  then have "same_except [''$''] targets (JObj rs) (JObj ?rs')"
    using s by (rule same_except_update_child)
  from parts_same_except_inner [OF p this]
  show "same_except (inner_path e @ [''$'']) targets e e'"
    by (simp add: parts_path [OF p] e'_def)
  show "element_attrs e' = Inr (JObj as')" by (simp add: parts_attrs [OF p'] update_conv')
  show "inner_path e' = inner_path e" by (simp add: parts_path [OF p'] parts_path [OF p])
qed

lemma element_attr_parts:
  "element_attrs e = Inr (JObj as) \<Longrightarrow>
   element_attr e name = (case map_of as name of Some v \<Rightarrow> v | None \<Rightarrow> JUndefined)"
  by (simp add: element_attr_def get_prop_JObj)

lemma setTimestampToNow_result:
  assumes "elem_parts e ps t qs rs rest" "map_of rs ''$'' = Some (JObj as)"
  shows "setTimestampToNow now e =
     Inr (rebuild ps t qs rest
            (JObj (AList.update ''$'' (JObj (AList.update ''timestamp'' (JStr now) as)) rs)))"
  unfolding setTimestampToNow_def simpleObjectDeepClone_def Let_def
  by (simp add: parts_type [OF assms(1)] assign_attribute_result [OF assms])

lemma setVersion_result:
  assumes "elem_parts e ps t qs rs rest" "map_of rs ''$'' = Some (JObj as)" "ToString version = Inr s"
  shows "setVersion e version =
     Inr (rebuild ps t qs rest
            (JObj (AList.update ''$'' (JObj (AList.update ''version'' (JStr (parseInt_string s)) as)) rs)))"
  unfolding setVersion_def simpleObjectDeepClone_def Let_def
  by (simp add: parts_type [OF assms(1)] parts_inner [OF assms(1)] parts_store [OF assms(1)]
        get_prop_JObj assms(2,3) parseInt_def toString_method_def put_child_def)

lemma setCoordinates_step1:
  assumes "elem_parts e ps t qs rs rest" "map_of rs ''$'' = Some (JObj as)"
    "toString_method lat = Inr la"
  shows "setCoordinates e lat lon =
     assign_attribute
       (rebuild ps t qs rest (JObj (AList.update ''$'' (JObj (AList.update ''lat'' (JStr la) as)) rs)))
       (JStr t) ''lon'' (bindE (toString_method lon) (\<lambda>s. Inr (JStr s)))"
  unfolding setCoordinates_def simpleObjectDeepClone_def Let_def
  by (simp add: parts_type [OF assms(1)] assign_attribute_result [OF assms(1,2)] assms(3))

lemma assign_attribute_facts:
  assumes e: "is_element e" "has_attrs e" and ty: "get_prop e ''_type'' = Inr (JStr t)"
  shows "\<exists>e'. assign_attribute e (JStr t) name (Inr v) = Inr e' \<and>
    is_element e' \<and> has_attrs e' \<and> get_prop e' ''_type'' = Inr (JStr t) \<and>
    element_tags e' = element_tags e \<and> element_tag_prop e' = element_tag_prop e \<and>
    same_except (inner_path e @ [''$'']) {name} e e' \<and> inner_path e' = inner_path e \<and>
    element_attr e' name = v \<and>
    (\<forall>k. k \<noteq> name \<longrightarrow> element_attr e' k = element_attr e k)"
proof -
  from e(1) obtain ps t' qs rs rest where p0: "elem_parts e ps t' qs rs rest" and ok: "tags_ok rs"
    by (rule is_element_cases)
  from parts_type [OF p0] ty have "t' = t" by simp
  with p0 have p: "elem_parts e ps t qs rs rest" by simp
  from p e(2) obtain as where a: "map_of rs ''$'' = Some (JObj as)" by (rule has_attrs_parts)
  let ?as1 = "AList.update name v as"
  define e' where "e' = rebuild ps t qs rest (JObj (AList.update ''$'' (JObj ?as1) rs))"
  have s1: "same_except [] {name} (JObj as) (JObj ?as1)" by (rule same_except_update) simp
  note f1 = set_attrs_facts [OF p ok a s1, folded e'_def]
  have ea: "element_attrs e = Inr (JObj as)" by (simp add: parts_attrs [OF p] a)
  have "assign_attribute e (JStr t) name (Inr v) = Inr e'"
    unfolding e'_def by (rule assign_attribute_result [OF p a])
  moreover have "has_attrs e'" by (simp add: has_attrs_def f1(5))
  moreover have "get_prop e' ''_type'' = Inr (JStr t)" by (rule parts_type [OF f1(7)])
  moreover have "element_attr e' name = v" by (simp add: element_attr_parts [OF f1(5)] update_conv')
  moreover have "\<forall>k. k \<noteq> name \<longrightarrow> element_attr e' k = element_attr e k"
    by (simp add: element_attr_parts [OF f1(5)] element_attr_parts [OF ea] update_conv')
  ultimately show ?thesis using f1(1,2,3,4,6) by blast
qed

lemma is_element_type:
  assumes "is_element e"
  obtains t where "get_prop e ''_type'' = Inr (JStr t)"
  using assms parts_type by (auto elim!: is_element_cases)

text \<open>The two steps of \<^verbatim>\<open>setCoordinates\<close> on an element with attributes.\<close>

lemma setCoordinates_facts:
  assumes e: "is_element e" "has_attrs e" and la: "stringable lat" and lo: "stringable lon"
  shows "\<exists>e'. setCoordinates e lat lon = Inr e' \<and> is_element e' \<and>
           element_tags e' = element_tags e \<and> element_tag_prop e' = element_tag_prop e \<and>
           same_except (inner_path e @ [''$'']) {''lat'', ''lon''} e e' \<and>
           element_attr e' ''lat'' = JStr (the_string lat) \<and>
           element_attr e' ''lon'' = JStr (the_string lon)"
proof -
  from e(1) obtain t where ty: "get_prop e ''_type'' = Inr (JStr t)" by (rule is_element_type)
  from assign_attribute_facts [OF e ty, of "''lat''" "JStr (the_string lat)"] obtain e1 where f1:
      "assign_attribute e (JStr t) ''lat'' (Inr (JStr (the_string lat))) = Inr e1"
      "is_element e1" "has_attrs e1" "get_prop e1 ''_type'' = Inr (JStr t)"
      "element_tags e1 = element_tags e" "element_tag_prop e1 = element_tag_prop e"
      "same_except (inner_path e @ [''$'']) {''lat''} e e1" "inner_path e1 = inner_path e"
      "element_attr e1 ''lat'' = JStr (the_string lat)"
      "\<forall>k. k \<noteq> ''lat'' \<longrightarrow> element_attr e1 k = element_attr e k"
    by blast
  from assign_attribute_facts [OF f1(2,3,4), of "''lon''" "JStr (the_string lon)"] obtain e2 where f2:
      "assign_attribute e1 (JStr t) ''lon'' (Inr (JStr (the_string lon))) = Inr e2"
      "is_element e2" "has_attrs e2" "get_prop e2 ''_type'' = Inr (JStr t)"
      "element_tags e2 = element_tags e1" "element_tag_prop e2 = element_tag_prop e1"
      "same_except (inner_path e1 @ [''$'']) {''lon''} e1 e2" "inner_path e2 = inner_path e1"
      "element_attr e2 ''lon'' = JStr (the_string lon)"
      "\<forall>k. k \<noteq> ''lon'' \<longrightarrow> element_attr e2 k = element_attr e1 k"
    by blast
  have r: "setCoordinates e lat lon = Inr e2"
    unfolding setCoordinates_def simpleObjectDeepClone_def Let_def
    by (simp add: ty stringable_toString [OF la] stringable_toString [OF lo] f1(1) f2(1))
  have fr: "same_except (inner_path e @ [''$'']) ({''lat''} \<union> {''lon''}) e e2"
    using f1(7) f2(7) unfolding f1(8) by (rule same_except_trans)
  have "element_attr e2 ''lat'' = JStr (the_string lat)" using f2(10) f1(9) by simp
  with r f2(2) f2(5) f1(5) f2(6) f1(6) fr f2(9) show ?thesis
    by (simp add: insert_commute)
qed

lemma setTimestampToNow_facts:
  assumes e: "is_element e" "has_attrs e"
  shows "\<exists>e'. setTimestampToNow now e = Inr e' \<and> is_element e' \<and>
           element_tags e' = element_tags e \<and> element_tag_prop e' = element_tag_prop e \<and>
           same_except (inner_path e @ [''$'']) {''timestamp''} e e' \<and>
           element_attr e' ''timestamp'' = JStr now"
proof -
  from e(1) obtain ps t qs rs rest where p: "elem_parts e ps t qs rs rest" and ok: "tags_ok rs"
    by (rule is_element_cases)
  from p e(2) obtain as where a: "map_of rs ''$'' = Some (JObj as)" by (rule has_attrs_parts)
  let ?as1 = "AList.update ''timestamp'' (JStr now) as"
  have s1: "same_except [] {''timestamp''} (JObj as) (JObj ?as1)" by (rule same_except_update) simp
  note f1 = set_attrs_facts [OF p ok a s1]
  have "element_attr (rebuild ps t qs rest (JObj (AList.update ''$'' (JObj ?as1) rs))) ''timestamp'' = JStr now"
    by (simp add: element_attr_parts [OF f1(5)] update_conv')
  with setTimestampToNow_result [OF p a, of now] f1(1-4) show ?thesis by simp
qed

lemma setVersion_facts:
  assumes e: "is_element e" "has_attrs e" and v: "ToString version = Inr s"
  shows "\<exists>e'. setVersion e version = Inr e' \<and> is_element e' \<and>
           element_tags e' = element_tags e \<and> element_tag_prop e' = element_tag_prop e \<and>
           same_except (inner_path e @ [''$'']) {''version''} e e' \<and>
           element_attr e' ''version'' = JStr (parseInt_string s)"
proof -
  from e(1) obtain ps t qs rs rest where p: "elem_parts e ps t qs rs rest" and ok: "tags_ok rs"
    by (rule is_element_cases)
  from p e(2) obtain as where a: "map_of rs ''$'' = Some (JObj as)" by (rule has_attrs_parts)
  let ?as1 = "AList.update ''version'' (JStr (parseInt_string s)) as"
  have s1: "same_except [] {''version''} (JObj as) (JObj ?as1)" by (rule same_except_update) simp
  note f1 = set_attrs_facts [OF p ok a s1]
  have "element_attr (rebuild ps t qs rest (JObj (AList.update ''$'' (JObj ?as1) rs))) ''version''
          = JStr (parseInt_string s)"
    by (simp add: element_attr_parts [OF f1(5)] update_conv')
  with setVersion_result [OF p a v] f1(1-4) show ?thesis by simp
qed

lemma digit_char_facts:
  assumes "d < 10"
  shows "is_digit (digit_char d)" "digit_val (digit_char d) = d" "\<not> is_space (digit_char d)"
    "digit_char d \<noteq> CHR ''-''" "digit_char d \<noteq> CHR ''+''" "digit_char d \<noteq> CHR ''x''"
    "digit_char d \<noteq> CHR ''X''"
proof -
  have oc: "(of_char (digit_char d) :: nat) = 48 + d"
    using assms by (simp add: digit_char_def)
  show "is_digit (digit_char d)" "digit_val (digit_char d) = d" "\<not> is_space (digit_char d)"
    using assms by (simp_all add: is_digit_def digit_val_def is_space_def oc)
  have ne: "\<And>c. (of_char c :: nat) < 48 \<or> 57 < (of_char c :: nat) \<Longrightarrow> digit_char d \<noteq> c"
    using oc assms by auto
  show "digit_char d \<noteq> CHR ''-''" "digit_char d \<noteq> CHR ''+''" "digit_char d \<noteq> CHR ''x''"
    "digit_char d \<noteq> CHR ''X''"
    by (rule ne, simp)+
qed


lemma nat_of_digits_snoc: "nat_of_digits (ds @ [c]) = 10 * nat_of_digits ds + digit_val c"
  by (simp add: nat_of_digits_def)

lemma nat_of_digits_dec: "nat_of_digits (dec n) = n"
proof (induction n rule: dec.induct)
  case (1 n)
  show ?case
  proof (cases "n < 10")
    case True
    then show ?thesis by (simp add: dec.simps [of n] digit_char_facts nat_of_digits_def)
  next
    case False
    with 1 show ?thesis
      by (simp add: dec.simps [of n] nat_of_digits_snoc digit_char_facts)
  qed
qed










lemma parseInt_string_examples:
  "parseInt_string ''9007199254740993'' = ''9007199254740992''"
  "parseInt_string ''1000000000000000000000'' = ''1e+21''"
  "parseInt_string ''123456789012345678901'' = ''123456789012345680000''"
  "parseInt_string (CHR 0xA0 # ''7'') = ''7''"
  "parseInt_string ''0x1F'' = ''31''"
  "parseInt_string ''-12.5'' = ''-12''"
  by code_simp+


lemma strict_eq_JStr_left: "(\<And>s. n \<noteq> JStr s) \<Longrightarrow> \<not> strict_eq (JStr k) n"
  by (cases n) auto

lemma removeProperty_facts:
  assumes p: "elem_parts e ps t qs rs rest" and a: "map_of rs ''tag'' = Some (JArr ts)"
    and ts: "list_all is_tag ts"
  shows "\<exists>e'. removeProperty e n = Inr e' \<and> is_element e' \<and>
           element_tags e' = filter (\<lambda>t. \<not> strict_eq (tag_key t) n) ts \<and>
           same_except (inner_path e) {''tag''} e e' \<and>
           removeProperty e' n = Inr e'"
proof -
  let ?ts' = "filter (\<lambda>t. \<not> strict_eq (tag_key t) n) ts"
  let ?rs' = "AList.update ''tag'' (JArr ?ts') rs"
  let ?qs' = "AList.update t (JArr (JObj ?rs' # rest)) qs"
  let ?ps' = "AList.update ''osm'' (JObj ?qs') ps"
  define e' where "e' = rebuild ps t qs rest (JObj ?rs')"
  have ts': "list_all is_tag ?ts'" using ts by (simp add: list_all_iff)
  note f = set_tags_facts [OF p ts', folded e'_def]
  have r: "removeProperty e n = Inr e'"
    unfolding e'_def by (rule removeProperty_result [OF p a ts])
  have a': "map_of ?rs' ''tag'' = Some (JArr ?ts')" by (simp add: update_conv')
  have "removeProperty e' n =
          Inr (rebuild ?ps' t ?qs' rest (JObj (AList.update ''tag'' (JArr (filter (\<lambda>t. \<not> strict_eq (tag_key t) n) ?ts')) ?rs')))"
    by (rule removeProperty_result [OF f(6) a' ts'])
  also have "filter (\<lambda>t. \<not> strict_eq (tag_key t) n) ?ts' = ?ts'" by simp
  also have "AList.update ''tag'' (JArr ?ts') ?rs' = ?rs'" by (rule update_triv [OF a'])
  also have "rebuild ?ps' t ?qs' rest (JObj ?rs') = JObj ?ps'"
    unfolding rebuild_def by (simp add: update_triv update_conv')
  also have "JObj ?ps' = e'" by (simp add: e'_def rebuild_def)
  finally have idem: "removeProperty e' n = Inr e'" .
  from r f(1) f(2) f(4) idem show ?thesis by blast
qed

lemma is_element_tag_cases:
  assumes "is_element e"
  obtains (untagged) ps t qs rs rest where "elem_parts e ps t qs rs rest" "map_of rs ''tag'' = None"
      "\<not> has_tag_array e" "element_tags e = []"
  | (tagged) ps t qs rs rest ts where "elem_parts e ps t qs rs rest" "map_of rs ''tag'' = Some (JArr ts)"
      "list_all is_tag ts" "has_tag_array e" "element_tags e = ts"
proof -
  from assms obtain ps t qs rs rest where p: "elem_parts e ps t qs rs rest" and ok: "tags_ok rs"
    by (rule is_element_cases)
  show ?thesis
  proof (cases "map_of rs ''tag''")
    case None
    with p show ?thesis
      by (intro untagged [OF p]) (simp_all add: has_tag_array_def element_tags_def parts_tag_prop [OF p])
  next
    case (Some x)
    with ok obtain ts where x: "x = JArr ts" "list_all is_tag ts"
      by (auto simp: tags_ok_def split: jsval.splits)
    with Some p show ?thesis
      by (intro tagged [OF p, of ts]) (simp_all add: has_tag_array_def element_tags_def parts_tag_prop [OF p])
  qed
qed

lemma setProperty_facts:
  assumes e: "is_element e" and n: "stringable n" and v: "stringable x"
  shows "\<exists>e'. setProperty e n x = Inr e' \<and> is_element e' \<and> has_tag_array e' \<and>
           element_tags e' =
             filter (\<lambda>t. tag_key t \<noteq> JStr (the_string n)) (element_tags e) @
             [tag_object (the_string n) (the_string x)] \<and>
           same_except (inner_path e) {''tag''} e e'"
proof -
  from e obtain ps t qs rs rest where p: "elem_parts e ps t qs rs rest" and ok: "tags_ok rs"
    by (rule is_element_cases)
  let ?ts = "filter (\<lambda>t. tag_key t \<noteq> JStr (the_string n)) (tags_of rs) @ [tag_object (the_string n) (the_string x)]"
  define e' where "e' = rebuild ps t qs rest (JObj (AList.update ''tag'' (JArr ?ts) rs))"
  have r: "setProperty e n x = Inr e'"
    unfolding e'_def
    by (rule setProperty_result [OF p ok stringable_toString [OF n] stringable_toString [OF v]])
  have ts: "list_all is_tag ?ts" using tags_ok_tags_of [OF ok] by (simp add: list_all_iff)
  note f = set_tags_facts [OF p ts, folded e'_def]
  have "has_tag_array e'" by (simp add: has_tag_array_def f(3))
  with r f(1,2,4) show ?thesis by (auto simp: parts_tags [OF p ok])
qed

lemma setProperties_facts:
  assumes e: "is_element e" and pr: "is_properties props"
  shows "\<exists>e'. setProperties e (JObj props) = Inr e' \<and> is_element e' \<and> has_tag_array e' \<and>
           element_tags e' =
             filter (\<lambda>t. \<not> array_includes (map fst props) (tag_key t)) (element_tags e) @
             props_tags props \<and>
           same_except (inner_path e) {''tag''} e e'"
proof -
  from e obtain ps t qs rs rest where p: "elem_parts e ps t qs rs rest" and ok: "tags_ok rs"
    by (rule is_element_cases)
  let ?ts = "filter (\<lambda>t. \<not> array_includes (map fst props) (tag_key t)) (tags_of rs) @ props_tags props"
  define e' where "e' = rebuild ps t qs rest (JObj (AList.update ''tag'' (JArr ?ts) rs))"
  have r: "setProperties e (JObj props) = Inr e'"
    unfolding e'_def by (rule setProperties_result [OF p ok pr])
  have ts: "list_all is_tag ?ts"
    using tags_ok_tags_of [OF ok] by (auto simp: list_all_iff props_tags_def)
  note f = set_tags_facts [OF p ts, folded e'_def]
  have "has_tag_array e'" by (simp add: has_tag_array_def f(3))
  with r f(1,2,4) show ?thesis by (auto simp: parts_tags [OF p ok])
qed

lemma removeProperty_element:
  assumes e: "is_element e" and h: "has_tag_array e"
  shows "\<exists>e'. removeProperty e n = Inr e' \<and> is_element e' \<and>
           element_tags e' = filter (\<lambda>t. \<not> strict_eq (tag_key t) n) (element_tags e) \<and>
           same_except (inner_path e) {''tag''} e e' \<and>
           removeProperty e' n = Inr e'"
  using e
proof (cases rule: is_element_tag_cases)
  case (untagged ps t qs rs rest)
  with h show ?thesis by simp
next
  case (tagged ps t qs rs rest ts)
  from removeProperty_facts [OF tagged(1,2,3), of n] tagged(5) show ?thesis by simp
qed

lemma removeProperty_untagged:
  assumes e: "is_element e" and h: "\<not> has_tag_array e"
  shows "removeProperty e n = Inl TypeError"
  using e
proof (cases rule: is_element_tag_cases)
  case (untagged ps t qs rs rest)
  then show ?thesis by (simp add: removeProperty_no_tag)
next
  case (tagged ps t qs rs rest ts)
  with h show ?thesis by simp
qed

lemma tag_keys_props: "map tag_key (props_tags props) = map (\<lambda>p. JStr (fst p)) props"
  by (simp add: props_tags_def)

lemma distinct_set_key:
  assumes "distinct (map tag_key ts)"
  shows "distinct (map tag_key (filter (\<lambda>t. tag_key t \<noteq> JStr k) ts @ [tag_object k v]))"
  using assms by (auto simp: distinct_map_filter)

lemma distinct_set_keys:
  assumes "distinct (map tag_key ts)" "distinct (map fst props)"
  shows "distinct (map tag_key
           (filter (\<lambda>t. \<not> array_includes (map fst props) (tag_key t)) ts @ props_tags props))"
proof -
  have 1: "distinct (map tag_key (filter (\<lambda>t. \<not> array_includes (map fst props) (tag_key t)) ts))"
    using assms(1) by (rule distinct_map_filter)
  have 2: "distinct (map (\<lambda>p. JStr (fst p)) props)"
    using assms(2) by (simp add: distinct_map inj_on_def)
  have 3: "\<And>t p. \<not> array_includes (map fst props) (tag_key t) \<Longrightarrow> p \<in> set props \<Longrightarrow>
             tag_key t \<noteq> JStr (fst p)"
    by (auto simp: array_includes_def split: jsval.splits)
  show ?thesis using 1 2 3 by (auto simp: tag_keys_props)
qed


lemma example_node_facts:
  "is_element example_node" "has_attrs example_node" "has_tag_array example_node"
  "element_tags example_node = [tag_object ''name'' ''Cafe'']"
  "tag_keys example_node = [JStr ''name'']"
  by code_simp+

lemma example_untagged_facts:
  "is_element example_untagged" "has_attrs example_untagged" "\<not> has_tag_array example_untagged"
  by code_simp+

lemma example_values:
  "stringable (JNum n)" "stringable (JStr s)" "the_string (JNum n) = n" "the_string (JStr s) = s"
  "is_properties [(''name'', JStr ''Cafe'')]"
  by (simp_all add: stringable_def the_string_def toString_method_def is_properties_def)


section \<open>Properties of the store model\<close>

lemma post_bindS:
  assumes "post n h P m"
    and "\<And>x h1. P x \<Longrightarrow> closed n h1 \<Longrightarrow> post n h1 Q (f x h1)"
  shows "post n h Q (bindS m f)"
proof (cases m)
  case (Pair r h1)
  show ?thesis
  proof (cases r)
    case (Inl e)
    with Pair assms(1) show ?thesis by (simp add: post_def bindS_def)
  next
    case (Inr x)
    with Pair assms(1) have a: "length h \<le> length h1" "take n h1 = take n h" "closed n h1" "P x"
      by (simp_all add: post_def)
    from assms(2) [OF a(4) a(3)] a(1,2) show ?thesis
      using Pair Inr by (auto simp: post_def bindS_def split: prod.splits)
  qed
qed

lemma post_read:
  assumes "closed n h" and "\<And>x. r = Inr x \<Longrightarrow> P x"
  shows "post n h P (r, h)"
  using assms by (cases r) (simp_all add: post_def)

lemma post_return: "closed n h \<Longrightarrow> P x \<Longrightarrow> post n h P (Inr x, h)"
  by (simp add: post_def)

lemma fresh_prims [simp]:
  "fresh n HUndefined" "fresh n HNull" "fresh n (HBool b)" "fresh n (HNum s)" "fresh n (HStr s)"
  "fresh n (HRef a) = (n \<le> a)"
  by (simp_all add: fresh_def)

lemma closed_cell:
  "closed n h \<Longrightarrow> n \<le> a \<Longrightarrow> a < length h \<Longrightarrow> v \<in> set (cell_values (h ! a)) \<Longrightarrow> fresh n v"
  by (auto simp: closed_def list_all_iff)

lemma map_of_in_values: "map_of ps key = Some v \<Longrightarrow> v \<in> set (map snd ps)"
  by (auto dest: map_of_SomeD intro: rev_image_eqI)

lemma h_get_fresh:
  assumes "closed n h" "fresh n x" "h_get h x key = Inr v"
  shows "fresh n v"
proof (cases x)
  case (HRef a)
  with assms(2) have na: "n \<le> a" by simp
  from assms(3) HRef have al: "a < length h" by (auto simp: h_get_def split: if_splits)
  show ?thesis
  proof (cases "h ! a")
    case (CObj ps)
    with assms(3) HRef al have "v = HUndefined \<or> v \<in> set (cell_values (h ! a))"
      by (auto simp: h_get_def cell_values_def split: option.splits dest: map_of_in_values)
    then show ?thesis using closed_cell [OF assms(1) na al] by auto
  next
    case (CArr xs)
    with assms(3) HRef al have "v = HUndefined \<or> (\<exists>s. v = HNum s) \<or> v \<in> set (cell_values (h ! a))"
      by (auto simp: h_get_def cell_values_def split: option.splits if_splits)
    then show ?thesis using closed_cell [OF assms(1) na al] by auto
  qed
qed (use assms(3) in \<open>auto simp: h_get_def split: option.splits if_splits\<close>)

lemma h_inner_element_fresh:
  assumes "closed n h" "fresh n e" "h_inner_element h e t = Inr v"
  shows "fresh n v"
  using assms(3) unfolding h_inner_element_def bindE_eq_Inr
  by (blast intro: h_get_fresh [OF assms(1)] assms(2))

lemma h_array_items_fresh:
  assumes "closed n h" "fresh n x" "h_array_items h x = Inr xs"
  shows "list_all (fresh n) xs"
proof -
  from assms(3) obtain a where x: "x = HRef a" "a < length h" "h ! a = CArr xs"
    by (auto simp: h_array_items_def split: hval.splits if_splits cell.splits)
  with assms(2) have "n \<le> a" by simp
  then show ?thesis using closed_cell [OF assms(1) _ x(2)] x(3)
    by (auto simp: list_all_iff cell_values_def)
qed

lemma filterE_subset: "filterE p xs = Inr ys \<Longrightarrow> set ys \<subseteq> set xs"
proof (induction xs arbitrary: ys)
  case Nil
  then show ?case by simp
next
  case (Cons x xs)
  then show ?case by (auto simp: bindE_eq_Inr split: if_splits)
qed

lemma closed_append:
  assumes "closed n h" "list_all (fresh n) (cell_values c)"
  shows "closed n (h @ [c])"
  using assms by (auto simp: closed_def nth_append)

lemma allocS_post:
  assumes "closed n h" "list_all (fresh n) (cell_values c)"
  shows "post n h (fresh n) (allocS h c)"
  using closed_append [OF assms] assms(1)
  by (simp add: post_def allocS_def h_alloc_def closed_def)

lemma update_values: "set (map snd (AList.update k v ps)) \<subseteq> insert v (set (map snd ps))"
  by (induction ps) auto

lemma setS_post:
  assumes "closed n h" "fresh n x" "fresh n v"
  shows "post n h (\<lambda>u. True) (setS h x key v)"
proof (cases "h_set h x key v")
  case (Inl e)
  then show ?thesis using assms(1) by (simp add: setS_def post_def)
next
  case (Inr h')
  then obtain a ps where x: "x = HRef a" "a < length h" "h ! a = CObj ps"
    and h': "h' = h[a := CObj (AList.update key v ps)]"
    by (auto simp: h_set_def split: hval.splits if_splits cell.splits)
  from assms(2) x have na: "n \<le> a" by simp
  have "list_all (fresh n) (cell_values (CObj (AList.update key v ps)))"
    using update_values [of key v ps] closed_cell [OF assms(1) na x(2)] x(3) assms(3)
    by (auto simp: list_all_iff cell_values_def)
  then have "closed n h'"
    using assms(1) x(2) unfolding h' closed_def by (auto simp: nth_list_update)
  then show ?thesis using Inr na by (simp add: setS_def post_def h')
qed

lemma zip_values: "set (map snd (zip ks vs)) \<subseteq> set vs"
  by (auto dest: set_zip_rightD)

lemma h_clone_post:
  "closed n h \<Longrightarrow> post n h (fresh n) (h_clone fuel h x)"
  "closed n h \<Longrightarrow> post n h (list_all (fresh n)) (h_clone_list fuel h xs)"
proof (induction fuel h x and fuel h xs rule: h_clone_h_clone_list.induct)
  case (7 fuel h a)
  show ?case
  proof (cases "a < length h")
    case False
    then show ?thesis using 7(3) by (simp add: post_def)
  next
    case al: True
    show ?thesis
    proof (cases "h ! a")
      case (CObj ps)
      from 7(1) [OF al CObj 7(3)] have p: "post n h (list_all (fresh n)) (h_clone_list fuel h (map snd ps))" .
      obtain r h1 where c: "h_clone_list fuel h (map snd ps) = (r, h1)" by (cases "h_clone_list fuel h (map snd ps)")
      show ?thesis
      proof (cases r)
        case (Inl e)
        with p c al CObj show ?thesis by (simp add: post_def)
      next
        case (Inr vs)
        with p c have q: "length h \<le> length h1" "take n h1 = take n h" "closed n h1" "list_all (fresh n) vs"
          by (simp_all add: post_def)
        have "list_all (fresh n) (cell_values (CObj (zip (map fst ps) vs)))"
          using q(4) zip_values [of "map fst ps" vs] by (auto simp: list_all_iff cell_values_def)
        from closed_append [OF q(3) this] q show ?thesis
          using c Inr al CObj by (simp add: post_def closed_def)
      qed
    next
      case (CArr ys)
      from 7(2) [OF al CArr 7(3)] have p: "post n h (list_all (fresh n)) (h_clone_list fuel h ys)" .
      obtain r h1 where c: "h_clone_list fuel h ys = (r, h1)" by (cases "h_clone_list fuel h ys")
      show ?thesis
      proof (cases r)
        case (Inl e)
        with p c al CArr show ?thesis by (simp add: post_def)
      next
        case (Inr vs)
        with p c have q: "length h \<le> length h1" "take n h1 = take n h" "closed n h1" "list_all (fresh n) vs"
          by (simp_all add: post_def)
        have "list_all (fresh n) (cell_values (CArr vs))"
          using q(4) by (simp add: cell_values_def)
        from closed_append [OF q(3) this] q show ?thesis
          using c Inr al CArr by (simp add: post_def closed_def)
      qed
    qed
  qed
next
  case (9 fuel h v vs)
  from 9(1) [OF 9(3)] have p: "post n h (fresh n) (h_clone fuel h v)" .
  obtain r h1 where c: "h_clone fuel h v = (r, h1)" by (cases "h_clone fuel h v")
  show ?case
  proof (cases r)
    case (Inl e)
    with p c show ?thesis by (simp add: post_def)
  next
    case (Inr v')
    with p c have q: "length h \<le> length h1" "take n h1 = take n h" "closed n h1" "fresh n v'"
      by (simp_all add: post_def)
    from 9(2) [OF c [symmetric] Inr q(3)] have p2: "post n h1 (list_all (fresh n)) (h_clone_list fuel h1 vs)" .
    then show ?thesis using c Inr q
      by (auto simp: post_def split: prod.splits sum.splits)
  qed
qed (simp_all add: post_def)

lemma h_simpleObjectDeepClone_post:
  "closed n h \<Longrightarrow> post n h (fresh n) (h_simpleObjectDeepClone h x)"
  by (simp add: h_simpleObjectDeepClone_def h_clone_post)

lemma h_filter_post:
  assumes "closed n h" "fresh n x"
  shows "post n h (fresh n) (h_filter h x cb)"
  unfolding h_filter_def
proof (rule post_bindS [where P = "list_all (fresh n)"])
  show "post n h (list_all (fresh n)) (h_array_items h x, h)"
    using assms by (intro post_read) (auto dest: h_array_items_fresh)
next
  fix xs h1
  assume xs: "list_all (fresh n) xs" and c: "closed n h1"
  show "post n h1 (fresh n) (bindS (filterE cb xs, h1) (\<lambda>ys h. allocS h (CArr ys)))"
  proof (rule post_bindS [where P = "list_all (fresh n)"])
    show "post n h1 (list_all (fresh n)) (filterE cb xs, h1)"
      using c xs by (intro post_read) (auto dest!: filterE_subset simp: list_all_iff)
  next
    fix ys h2
    assume "list_all (fresh n) ys" "closed n h2"
    then show "post n h2 (fresh n) (allocS h2 (CArr ys))"
      by (intro allocS_post) (simp_all add: cell_values_def)
  qed
qed

lemma h_tag_object_post:
  assumes "closed n h"
  shows "post n h (fresh n) (h_tag_object h k v)"
  unfolding h_tag_object_def
proof (rule post_bindS [where P = "fresh n"])
  show "post n h (fresh n) (allocS h (CObj [(''k'', HStr k), (''v'', HStr v)]))"
    using assms by (intro allocS_post) (simp_all add: cell_values_def)
next
  fix attrs h1
  assume "fresh n attrs" "closed n h1"
  then show "post n h1 (fresh n) (allocS h1 (CObj [(''$'', attrs)]))"
    by (intro allocS_post) (simp_all add: cell_values_def)
qed




lemma post_any: "closed n h \<Longrightarrow> post n h (\<lambda>x. True) (r, h)"
  by (rule post_read) simp_all

lemma post_get: "closed n h \<Longrightarrow> fresh n x \<Longrightarrow> post n h (fresh n) (h_get h x key, h)"
  by (rule post_read) (auto dest: h_get_fresh)

lemma post_inner: "closed n h \<Longrightarrow> fresh n e \<Longrightarrow> post n h (fresh n) (h_inner_element h e t, h)"
  by (rule post_read) (auto dest: h_inner_element_fresh)

lemma post_items: "closed n h \<Longrightarrow> fresh n x \<Longrightarrow> post n h (list_all (fresh n)) (h_array_items h x, h)"
  by (rule post_read) (auto dest: h_array_items_fresh)

lemma closed_start: "closed (length h) h"
  by (auto simp: closed_def)

lemma h_setProperty_post:
  "post (length h) h (fresh (length h)) (h_setProperty h e pn pv)"
  unfolding h_setProperty_def
  apply (rule post_bindS [OF post_any [OF closed_start]])
  apply (rule post_bindS [OF h_simpleObjectDeepClone_post], assumption)
  apply (rule post_bindS [OF post_inner], assumption, assumption)
  apply (rule post_bindS [OF post_get], assumption, assumption)
  apply (rule post_bindS [where P = "fresh (length h)"])
   apply (simp add: h_filter_post allocS_post cell_values_def)
  apply (rule post_bindS [OF post_items], assumption, assumption)
  apply (rule post_bindS [OF post_any], assumption)
  apply (rule post_bindS [OF post_any], assumption)
  apply (rule post_bindS [OF h_tag_object_post], assumption)
  apply (rule post_bindS [OF allocS_post], assumption, simp add: cell_values_def)
  apply (rule post_bindS [OF setS_post], assumption, assumption, assumption)
  apply (rule post_return, assumption, assumption)
  done






lemma reaches_fresh:
  assumes "closed n h"
  shows "reaches h x a \<Longrightarrow> fresh n x \<Longrightarrow> n \<le> a"
proof (induction rule: reaches.induct)
  case (here a)
  then show ?case by simp
next
  case (step x a b)
  from closed_cell [OF assms step.IH [OF step.prems] step.hyps(2) step.hyps(3)]
  show ?case by simp
qed

lemma h_document_extend:
  "wf_store h \<Longrightarrow> length h \<le> length h' \<Longrightarrow> (\<forall>a < length h. h' ! a = h ! a) \<Longrightarrow>
   in_store h x \<Longrightarrow> h_document fuel h' x = h_document fuel h x"
  "wf_store h \<Longrightarrow> length h \<le> length h' \<Longrightarrow> (\<forall>a < length h. h' ! a = h ! a) \<Longrightarrow>
   list_all (in_store h) xs \<Longrightarrow> h_documents fuel h' xs = h_documents fuel h xs"
proof (induction fuel h x and fuel h xs rule: h_document_h_documents.induct)
  case (7 fuel h a)
  from 7(6) have al: "a < length h" by (simp add: in_store_def)
  with 7(4,5) have al': "a < length h'" and eq: "h' ! a = h ! a" by auto
  from 7(3) al have ch: "list_all (in_store h) (cell_values (h ! a))"
    by (simp add: wf_store_def list_all_length)
  show ?case
  proof (cases "h ! a")
    case (CObj ps)
    from ch CObj have "list_all (in_store h) (map snd ps)" by (simp add: cell_values_def)
    from 7(1) [OF al CObj 7(3,4,5) this] show ?thesis using al al' eq CObj by simp
  next
    case (CArr ys)
    from ch CArr have "list_all (in_store h) ys" by (simp add: cell_values_def)
    from 7(2) [OF al CArr 7(3,4,5) this] show ?thesis using al al' eq CArr by simp
  qed
next
  case (9 fuel h x xs)
  from 9(6) have x: "in_store h x" and xs: "list_all (in_store h) xs" by simp_all
  from 9(1) [OF 9(3,4,5) x] have 1: "h_document fuel h' x = h_document fuel h x" .
  show ?case
  proof (cases "h_document fuel h x")
    case None
    with 1 show ?thesis by simp
  next
    case (Some v)
    from 9(2) [OF Some 9(3,4,5) xs] 1 Some show ?thesis by simp
  qed
qed simp_all

lemma in_store_mono: "in_store h x \<Longrightarrow> length h \<le> length h' \<Longrightarrow> in_store h' x"
  by (auto simp: in_store_def split: hval.splits)

lemma wf_store_append:
  assumes "wf_store h" "list_all (in_store h) (cell_values c)"
  shows "wf_store (h @ [c])"
  using assms in_store_mono [of h _ "h @ [c]"]
  by (auto simp: wf_store_def list_all_iff)

lemma h_clone_list_length:
  "h_clone_list fuel h xs = (Inr ys, h') \<Longrightarrow> length ys = length xs"
proof (induction xs arbitrary: h ys)
  case Nil
  then show ?case by simp
next
  case (Cons x xs)
  then show ?case by (auto split: prod.splits sum.splits)
qed

lemma h_documents_length: "h_documents fuel h xs = Some ds \<Longrightarrow> length ds = length xs"
  by (induction xs arbitrary: ds) (auto split: option.splits)

lemma new_cell_ok:
  assumes c: "copies_ok fuel h xs (Inr ys, h1)" and l: "length ys = length xs"
    and cell: "cell_values c = ys"
  shows "wf_store (h1 @ [c])" "length h \<le> length (h1 @ [c])" "\<forall>a < length h. (h1 @ [c]) ! a = h ! a"
    "h_documents fuel (h1 @ [c]) ys = h_documents fuel h xs" "h_documents fuel h xs \<noteq> None"
proof -
  from c have w: "wf_store h1" and le: "length h \<le> length h1" and same: "\<forall>a < length h. h1 ! a = h ! a"
    and ys: "list_all (in_store h1) ys" and d: "h_documents fuel h xs \<noteq> None"
    and e: "h_documents fuel h1 ys = h_documents fuel h xs"
    by (simp_all add: copies_ok_def)
  show "wf_store (h1 @ [c])" using w ys cell by (intro wf_store_append) simp_all
  show "length h \<le> length (h1 @ [c])" using le by simp
  show "\<forall>a < length h. (h1 @ [c]) ! a = h ! a" using le same by (simp add: nth_append)
  have "h_documents fuel (h1 @ [c]) ys = h_documents fuel h1 ys"
    by (rule h_document_extend(2) [OF w _ _ ys]) (simp_all add: nth_append)
  with e show "h_documents fuel (h1 @ [c]) ys = h_documents fuel h xs" by simp
  show "h_documents fuel h xs \<noteq> None" by (rule d)
qed

lemma h_clone_copy_ok:
  "wf_store h \<Longrightarrow> in_store h x \<Longrightarrow> copy_ok fuel h x (h_clone fuel h x)"
  "wf_store h \<Longrightarrow> list_all (in_store h) xs \<Longrightarrow> copies_ok fuel h xs (h_clone_list fuel h xs)"
proof (induction fuel h x and fuel h xs rule: h_clone_h_clone_list.induct)
  case (7 fuel h a)
  from 7(4) have al: "a < length h" by (simp add: in_store_def)
  from 7(3) al have ch: "list_all (in_store h) (cell_values (h ! a))"
    by (simp add: wf_store_def list_all_length)
  show ?case
  proof (cases "h ! a")
    case (CObj ps)
    from ch CObj have "list_all (in_store h) (map snd ps)" by (simp add: cell_values_def)
    from 7(1) [OF al CObj 7(3) this] have p: "copies_ok fuel h (map snd ps) (h_clone_list fuel h (map snd ps))" .
    obtain r h1 where c: "h_clone_list fuel h (map snd ps) = (r, h1)" by (cases "h_clone_list fuel h (map snd ps)")
    show ?thesis
    proof (cases r)
      case (Inl e)
      with p c al CObj show ?thesis by (simp add: copy_ok_def copies_ok_def)
    next
      case (Inr vs)
      from c Inr have "h_clone_list fuel h (map snd ps) = (Inr vs, h1)" by simp
      then have l: "length vs = length (map snd ps)" by (rule h_clone_list_length)
      let ?c = "CObj (zip (map fst ps) vs)"
      have cv: "cell_values ?c = vs" using l by (simp add: cell_values_def)
      note n = new_cell_ok [OF p [unfolded c Inr] l cv]
      from n(5) obtain ds where ds: "h_documents fuel h (map snd ps) = Some ds" by auto
      have "h_document (Suc fuel) (h1 @ [?c]) (HRef (length h1)) = Some (JObj (zip (map fst ps) ds))"
        using n(4) ds l h_documents_length [OF ds] by simp
      moreover have "h_document (Suc fuel) h (HRef a) = Some (JObj (zip (map fst ps) ds))"
        using al CObj ds by simp
      ultimately show ?thesis
        using n(1,2,3) c Inr al CObj by (simp add: copy_ok_def in_store_def)
    qed
  next
    case (CArr ys)
    from ch CArr have "list_all (in_store h) ys" by (simp add: cell_values_def)
    from 7(2) [OF al CArr 7(3) this] have p: "copies_ok fuel h ys (h_clone_list fuel h ys)" .
    obtain r h1 where c: "h_clone_list fuel h ys = (r, h1)" by (cases "h_clone_list fuel h ys")
    show ?thesis
    proof (cases r)
      case (Inl e)
      with p c al CArr show ?thesis by (simp add: copy_ok_def copies_ok_def)
    next
      case (Inr vs)
      from c Inr have "h_clone_list fuel h ys = (Inr vs, h1)" by simp
      then have l: "length vs = length ys" by (rule h_clone_list_length)
      let ?c = "CArr vs"
      have cv: "cell_values ?c = vs" by (simp add: cell_values_def)
      note n = new_cell_ok [OF p [unfolded c Inr] l cv]
      from n(5) obtain ds where ds: "h_documents fuel h ys = Some ds" by auto
      have "h_document (Suc fuel) (h1 @ [?c]) (HRef (length h1)) = Some (JArr ds)"
        using n(4) ds by simp
      moreover have "h_document (Suc fuel) h (HRef a) = Some (JArr ds)"
        using al CArr ds by simp
      ultimately show ?thesis
        using n(1,2,3) c Inr al CArr by (simp add: copy_ok_def in_store_def)
    qed
  qed
next
  case (9 fuel h v vs)
  from 9(4) have v: "in_store h v" and vs: "list_all (in_store h) vs" by simp_all
  from 9(1) [OF 9(3) v] have p: "copy_ok fuel h v (h_clone fuel h v)" .
  obtain r h1 where c: "h_clone fuel h v = (r, h1)" by (cases "h_clone fuel h v")
  show ?case
  proof (cases r)
    case (Inl e)
    with p c show ?thesis by (simp add: copy_ok_def copies_ok_def)
  next
    case (Inr v')
    with p c have q: "wf_store h1" "length h \<le> length h1" "\<forall>a < length h. h1 ! a = h ! a"
      "in_store h1 v'" "h_document fuel h v \<noteq> None" "h_document fuel h1 v' = h_document fuel h v"
      by (simp_all add: copy_ok_def)
    have vs1: "list_all (in_store h1) vs" using vs q(2) by (auto simp: list_all_iff intro: in_store_mono)
    from 9(2) [OF c [symmetric] Inr q(1) vs1] have p2: "copies_ok fuel h1 vs (h_clone_list fuel h1 vs)" .
    obtain r2 h2 where c2: "h_clone_list fuel h1 vs = (r2, h2)" by (cases "h_clone_list fuel h1 vs")
    have old: "h_documents fuel h1 vs = h_documents fuel h vs"
      by (rule h_document_extend(2) [OF 9(3) q(2,3) vs])
    show ?thesis
    proof (cases r2)
      case (Inl e)
      with p2 c2 c Inr q show ?thesis by (auto simp: copies_ok_def)
    next
      case r2: (Inr vs')
      with p2 c2 have q2: "wf_store h2" "length h1 \<le> length h2" "\<forall>a < length h1. h2 ! a = h1 ! a"
        "list_all (in_store h2) vs'" "h_documents fuel h1 vs \<noteq> None"
        "h_documents fuel h2 vs' = h_documents fuel h1 vs"
        by (simp_all add: copies_ok_def)
      have "h_document fuel h2 v' = h_document fuel h1 v'"
        by (rule h_document_extend(1) [OF q(1) q2(2,3) q(4)])
      with q q2 old c c2 Inr r2 show ?thesis
        by (auto simp: copies_ok_def intro: in_store_mono)
    qed
  qed
qed (simp_all add: copy_ok_def copies_ok_def in_store_def)

text \<open>
  The two models of \<^verbatim>\<open>simpleObjectDeepClone\<close> agree: in a well-formed store the copy
  succeeds on a value that denotes a document, and the copy denotes the document that
  the model of values returns.
\<close>

lemma h_simpleObjectDeepClone_document:
  assumes "wf_store h" "in_store h x" "h_simpleObjectDeepClone h x = (Inr y, h')"
  shows "h_document (length h) h x \<noteq> None"
    and "h_document (length h) h' y = map_option simpleObjectDeepClone (h_document (length h) h x)"
proof -
  from h_clone_copy_ok(1) [OF assms(1,2), of "length h"] assms(3)
  have 1: "h_document (length h) h x \<noteq> None"
    and 2: "h_document (length h) h' y = h_document (length h) h x"
    by (simp_all add: copy_ok_def h_simpleObjectDeepClone_def)
  show "h_document (length h) h x \<noteq> None" by (rule 1)
  from 1 obtain d where "h_document (length h) h x = Some d" by auto
  with 2 show "h_document (length h) h' y = map_option simpleObjectDeepClone (h_document (length h) h x)"
    by (simp add: simpleObjectDeepClone_def)
qed

lemma post_copy_on_write:
  assumes "post (length h) h (fresh (length h)) m"
  shows "copy_on_write h m"
proof (cases m)
  case (Pair r h')
  with assms have p: "length h \<le> length h'" "take (length h) h' = h" "closed (length h) h'"
    and f: "\<And>x. r = Inr x \<Longrightarrow> fresh (length h) x"
    by (auto simp: post_def)
  have same: "\<forall>a < length h. h' ! a = h ! a"
    using p(2) by (metis nth_take)
  have doc: "wf_store h \<longrightarrow> (\<forall>x fuel. in_store h x \<longrightarrow> h_document fuel h' x = h_document fuel h x)"
    using h_document_extend(1) [OF _ p(1) same] by blast
  show ?thesis using Pair p(1) same doc reaches_fresh [OF p(3)] f
    by (auto simp: copy_on_write_def)
qed



section \<open>Properties of the configuration\<close>

lemma removeTrailingSlashes_strip:
  assumes "u = [] \<or> last u \<noteq> CHR ''/''"
  shows "removeTrailingSlashes (u @ replicate n CHR ''/'') = u"
proof -
  have "dropWhile (\<lambda>c. c = CHR ''/'') (replicate n CHR ''/'' @ rev u) = dropWhile (\<lambda>c. c = CHR ''/'') (rev u)"
    by (induction n) simp_all
  also have "\<dots> = rev u"
    using assms by (cases "rev u") (auto simp: last_rev [symmetric] simp del: last_rev)
  finally show ?thesis by (simp add: removeTrailingSlashes_def rev_replicate)
qed

lemma removeTrailingSlashes_no_slash:
  "removeTrailingSlashes s = [] \<or> last (removeTrailingSlashes s) \<noteq> CHR ''/''"
proof -
  let ?d = "dropWhile (\<lambda>c. c = CHR ''/'') (rev s)"
  show ?thesis
  proof (cases ?d)
    case Nil
    then show ?thesis by (simp add: removeTrailingSlashes_def)
  next
    case (Cons c cs)
    then have "c \<noteq> CHR ''/''" using hd_dropWhile [of "\<lambda>c. c = CHR ''/''" "rev s"] by auto
    with Cons show ?thesis by (simp add: removeTrailingSlashes_def)
  qed
qed

lemma spread_other:
  "k \<notin> fst ` set b \<Longrightarrow> map_of (object_spread a b) k = map_of a k"
  unfolding object_spread_def
  by (induction b arbitrary: a) (auto simp: update_conv')

lemma spread_override:
  "distinct (map fst b) \<Longrightarrow> map_of b k = Some v \<Longrightarrow> map_of (object_spread a b) k = Some v"
proof (induction b arbitrary: a)
  case Nil
  then show ?case by simp
next
  case (Cons p b)
  show ?case
  proof (cases "fst p = k")
    case True
    with Cons.prems have "k \<notin> fst ` set b" "snd p = v" by auto
    with True spread_other [of k b "AList.update (fst p) (snd p) a"] show ?thesis
      by (simp add: object_spread_def update_conv')
  next
    case False
    with Cons.prems have "distinct (map fst b)" "map_of b k = Some v" by auto
    from Cons.IH [OF this] show ?thesis by (simp add: object_spread_def)
  qed
qed

lemma OsmRequest_endpoint:
  assumes "map_of (object_spread defaults (own_properties options)) ''endpoint'' = Some (JStr url)"
    "options \<noteq> JUndefined"
  shows "\<exists>this. OsmRequest defaults options = Inr this \<and>
           endpoint this = JStr (removeTrailingSlashes url) \<and>
           map_of (priv_auth this) ''url'' = Some (JStr (removeTrailingSlashes url))"
  using assms
  by (simp add: OsmRequest_def Let_def option_value_def endpoint_def update_conv')


section \<open>The claims\<close>



text \<open>
  Claim C2. For every element \<open>E\<close>, property name \<open>k\<close> and value \<open>v\<close> (strings, as
  the interface documents them), \<^verbatim>\<open>setProperty(E, k, v)\<close> returns an element whose tags
  are the tags of \<open>E\<close> with another key, in their order, followed by the tag \<open>k = v\<close>:
  exactly one tag has the key \<open>k\<close>, its value is \<open>v\<close>, and every tag of \<open>E\<close> with
  another key is still there. This holds whether or not the tag keys of \<open>E\<close> are unique.
  In the model of values the argument cannot change; in the store model, where it could,
  the call leaves every cell that existed before as it was and returns an object made of
  new cells (for every store and element there, \<open>E\<close> or not).
\<close>

theorem setProperty_upsert:
  assumes "is_element E"
  shows "(\<exists>E'. setProperty E (JStr k) (JStr v) = Inr E' \<and> is_element E' \<and>
            element_tags E' = filter (\<lambda>t. tag_key t \<noteq> JStr k) (element_tags E) @ [tag_object k v] \<and>
            length (filter (\<lambda>t. tag_key t = JStr k) (element_tags E')) = 1 \<and>
            (\<forall>t \<in> set (element_tags E'). tag_key t = JStr k \<longrightarrow> tag_value t = JStr v) \<and>
            (\<forall>t \<in> set (element_tags E). tag_key t \<noteq> JStr k \<longrightarrow> t \<in> set (element_tags E'))) \<and>
         copy_on_write h (h_setProperty h element (HStr k) (HStr v))"
proof -
  from assms obtain ps t qs rs rest where p: "elem_parts E ps t qs rs rest" and ok: "tags_ok rs"
    by (rule is_element_cases)
  let ?ts = "filter (\<lambda>t. tag_key t \<noteq> JStr k) (tags_of rs) @ [tag_object k v]"
  let ?E' = "rebuild ps t qs rest (JObj (AList.update ''tag'' (JArr ?ts) rs))"
  have r: "setProperty E (JStr k) (JStr v) = Inr ?E'"
    by (rule setProperty_result [OF p ok]) (simp_all add: toString_method_def)
  have ts: "list_all is_tag ?ts" using tags_ok_tags_of [OF ok] by (simp add: list_all_iff)
  note f = set_tags_facts [OF p ts]
  have tags: "element_tags ?E' = filter (\<lambda>t. tag_key t \<noteq> JStr k) (element_tags E) @ [tag_object k v]"
    using f(2) by (simp add: parts_tags [OF p ok])
  have one: "length (filter (\<lambda>t. tag_key t = JStr k) (element_tags ?E')) = 1"
    unfolding tags by (simp add: filter_empty_conv)
  have val: "\<forall>t \<in> set (element_tags ?E'). tag_key t = JStr k \<longrightarrow> tag_value t = JStr v"
    unfolding tags by auto
  have keep: "\<forall>t \<in> set (element_tags E). tag_key t \<noteq> JStr k \<longrightarrow> t \<in> set (element_tags ?E')"
    unfolding tags by auto
  have "copy_on_write h (h_setProperty h element (HStr k) (HStr v))"
    by (rule post_copy_on_write) (rule h_setProperty_post)
  with r f(1) tags one val keep show ?thesis by blast
qed

theorem setProperty_upsert_witness:
  "is_element example_node \<and>
   setProperty example_node (JStr ''name'') (JStr ''Bar'') =
     Inr (JObj [(''osm'', JObj [(''$'', JObj []),
                           (''node'', JArr [JObj [(''$'', JObj [(''lat'', JNum ''48.8''),
                                                                (''lon'', JNum ''2.3'')]),
                                                  (''tag'', JArr [tag_object ''name'' ''Bar''])]])]),
           (''_type'', JStr ''node'')])"
proof -
  have e: "is_element example_node"
    by (simp add: is_element_def example_node_def tags_ok_def)
  have "setProperty example_node (JStr ''name'') (JStr ''Bar'') = Inr (JObj [(''osm'', JObj [(''$'', JObj []),
                           (''node'', JArr [JObj [(''$'', JObj [(''lat'', JNum ''48.8''),
                                                                (''lon'', JNum ''2.3'')]),
                                                  (''tag'', JArr [tag_object ''name'' ''Bar''])]])]),
           (''_type'', JStr ''node'')])"
    by code_simp
  with e setProperty_upsert [OF e, of "''name''" "''Bar''"] show ?thesis by simp
qed



text \<open>
  Claim C4. For every element whose tag keys are unique, each of the six mutators
  returns an element whose tag keys are unique, and that agrees with the argument on
  every property but the one it targets: outside the path to the inner object nothing
  differs, and there only the property \<^verbatim>\<open>tag\<close> (for the three tag mutators), or inside
  the attribute object \<^verbatim>\<open>$\<close> only \<^verbatim>\<open>lat\<close> and \<^verbatim>\<open>lon\<close>, \<^verbatim>\<open>timestamp\<close>, or
  \<^verbatim>\<open>version\<close>. Each mutator is taken where it returns: names and values that have a
  string form, a properties object, a tag array for \<^verbatim>\<open>removeProperty\<close>, an attribute
  object for the last three.
\<close>

theorem mutators_keep_keys_and_fields:
  assumes "is_element E" "distinct (tag_keys E)"
  shows "(stringable n \<longrightarrow> stringable x \<longrightarrow>
            (\<exists>E'. setProperty E n x = Inr E' \<and> distinct (tag_keys E') \<and>
                  same_except (inner_path E) {''tag''} E E')) \<and>
         (is_properties props \<longrightarrow>
            (\<exists>E'. setProperties E (JObj props) = Inr E' \<and> distinct (tag_keys E') \<and>
                  same_except (inner_path E) {''tag''} E E')) \<and>
         (has_tag_array E \<longrightarrow>
            (\<exists>E'. removeProperty E m = Inr E' \<and> distinct (tag_keys E') \<and>
                  same_except (inner_path E) {''tag''} E E')) \<and>
         (has_attrs E \<longrightarrow> stringable lat \<longrightarrow> stringable lon \<longrightarrow>
            (\<exists>E'. setCoordinates E lat lon = Inr E' \<and> distinct (tag_keys E') \<and>
                  same_except (inner_path E @ [''$'']) {''lat'', ''lon''} E E')) \<and>
         (has_attrs E \<longrightarrow>
            (\<exists>E'. setTimestampToNow now E = Inr E' \<and> distinct (tag_keys E') \<and>
                  same_except (inner_path E @ [''$'']) {''timestamp''} E E')) \<and>
         (has_attrs E \<longrightarrow> ToString version = Inr s \<longrightarrow>
            (\<exists>E'. setVersion E version = Inr E' \<and> distinct (tag_keys E') \<and>
                  same_except (inner_path E @ [''$'']) {''version''} E E'))"
proof (intro conjI impI)
  assume "stringable n" "stringable x"
  from setProperty_facts [OF assms(1) this] distinct_set_key [OF assms(2) [unfolded tag_keys_def]]
  show "\<exists>E'. setProperty E n x = Inr E' \<and> distinct (tag_keys E') \<and>
                  same_except (inner_path E) {''tag''} E E'"
    by (auto simp: tag_keys_def)
next
  assume p: "is_properties props"
  then have "distinct (map fst props)" by (simp add: is_properties_def)
  from setProperties_facts [OF assms(1) p] distinct_set_keys [OF assms(2) [unfolded tag_keys_def] this]
  show "\<exists>E'. setProperties E (JObj props) = Inr E' \<and> distinct (tag_keys E') \<and>
                  same_except (inner_path E) {''tag''} E E'"
    by (auto simp: tag_keys_def)
next
  assume "has_tag_array E"
  from removeProperty_element [OF assms(1) this, of m] assms(2)
  show "\<exists>E'. removeProperty E m = Inr E' \<and> distinct (tag_keys E') \<and>
                  same_except (inner_path E) {''tag''} E E'"
    by (auto simp: tag_keys_def distinct_map_filter)
next
  assume "has_attrs E" "stringable lat" "stringable lon"
  from setCoordinates_facts [OF assms(1) this] assms(2)
  show "\<exists>E'. setCoordinates E lat lon = Inr E' \<and> distinct (tag_keys E') \<and>
                  same_except (inner_path E @ [''$'']) {''lat'', ''lon''} E E'"
    by (auto simp: tag_keys_def)
next
  assume "has_attrs E"
  from setTimestampToNow_facts [OF assms(1) this, of now] assms(2)
  show "\<exists>E'. setTimestampToNow now E = Inr E' \<and> distinct (tag_keys E') \<and>
                  same_except (inner_path E @ [''$'']) {''timestamp''} E E'"
    by (auto simp: tag_keys_def)
next
  assume "has_attrs E" "ToString version = Inr s"
  from setVersion_facts [OF assms(1) this] assms(2)
  show "\<exists>E'. setVersion E version = Inr E' \<and> distinct (tag_keys E') \<and>
                  same_except (inner_path E @ [''$'']) {''version''} E E'"
    by (auto simp: tag_keys_def)
qed

theorem mutators_keep_keys_and_fields_witness:
  "is_element example_node \<and> distinct (tag_keys example_node) \<and>
   has_tag_array example_node \<and> has_attrs example_node \<and>
   (\<exists>E'. setProperty example_node (JStr ''amenity'') (JStr ''cafe'') = Inr E' \<and> distinct (tag_keys E')) \<and>
   (\<exists>E'. setProperties example_node (JObj [(''name'', JStr ''Cafe'')]) = Inr E' \<and> distinct (tag_keys E')) \<and>
   (\<exists>E'. removeProperty example_node (JStr ''name'') = Inr E' \<and> distinct (tag_keys E')) \<and>
   (\<exists>E'. setCoordinates example_node (JNum ''1.5'') (JNum ''2'') = Inr E' \<and> distinct (tag_keys E')) \<and>
   (\<exists>E'. setTimestampToNow ''2020-01-01T00:00:00.000Z'' example_node = Inr E' \<and> distinct (tag_keys E')) \<and>
   (\<exists>E'. setVersion example_node (JNum ''3'') = Inr E' \<and> distinct (tag_keys E'))"
proof -
  have d: "distinct (tag_keys example_node)" by (simp add: example_node_facts)
  have v: "ToString (JNum ''3'') = Inr ''3''" by simp
  from mutators_keep_keys_and_fields [OF example_node_facts(1) d,
      where n = "JStr ''amenity''" and x = "JStr ''cafe''" and props = "[(''name'', JStr ''Cafe'')]"
        and m = "JStr ''name''" and lat = "JNum ''1.5''" and lon = "JNum ''2''"
        and now = "''2020-01-01T00:00:00.000Z''" and version = "JNum ''3''" and s = "''3''"]
  show ?thesis
    using d v by (simp add: example_node_facts example_values) blast
qed

text \<open>
  Claim C5. For every element \<open>E\<close> with an attribute object, coordinates \<open>lat\<close>,
  \<open>lon\<close> and version \<open>v\<close> that have a string form, \<^verbatim>\<open>setCoordinates(E, lat, lon)\<close> and
  \<^verbatim>\<open>setVersion(E, v)\<close> return elements whose property \<^verbatim>\<open>tag\<close> is that of \<open>E\<close>: the
  same tags in the same order (and no tag array where \<open>E\<close> has none).
\<close>

theorem coordinates_version_keep_tags:
  assumes "is_element E" "has_attrs E" "stringable lat" "stringable lon" "ToString version = Inr s"
  shows "(\<exists>E'. setCoordinates E lat lon = Inr E' \<and>
            element_tag_prop E' = element_tag_prop E \<and> element_tags E' = element_tags E) \<and>
         (\<exists>E'. setVersion E version = Inr E' \<and>
            element_tag_prop E' = element_tag_prop E \<and> element_tags E' = element_tags E)"
  using setCoordinates_facts [OF assms(1-4)] setVersion_facts [OF assms(1,2,5)] by blast

theorem coordinates_version_keep_tags_witness:
  "is_element example_node \<and> has_attrs example_node \<and>
   stringable (JNum ''1.5'') \<and> stringable (JNum ''2'') \<and> ToString (JNum ''3'') = Inr ''3'' \<and>
   (\<exists>E'. setCoordinates example_node (JNum ''1.5'') (JNum ''2'') = Inr E' \<and>
         element_tags E' = [tag_object ''name'' ''Cafe'']) \<and>
   (\<exists>E'. setVersion example_node (JNum ''3'') = Inr E' \<and>
         element_tags E' = [tag_object ''name'' ''Cafe''])"
proof -
  have v: "ToString (JNum ''3'') = Inr ''3''" by simp
  from coordinates_version_keep_tags [OF example_node_facts(1,2) example_values(1) example_values(1) v,
      of "''1.5''" "''2''"]
  show ?thesis using v by (simp add: example_node_facts example_values) blast
qed






text \<open>
  Claim C8. For every configuration whose option \<^verbatim>\<open>endpoint\<close> is a URL \<open>u\<close> followed by
  any number of slashes, where \<open>u\<close> does not end in a slash, the constructor returns an
  instance whose getter \<^verbatim>\<open>endpoint\<close> returns \<open>u\<close> (with no slash to strip, the endpoint
  as given); \<open>u\<close> is the URL handed to the OAuth library, and it is the endpoint that each of
  the request methods hands to its request builder.
\<close>

theorem endpoint_normalised:
  assumes "distinct (map fst opts)"
    and "map_of opts ''endpoint'' = Some (JStr (u @ replicate n CHR ''/''))"
    and "u = [] \<or> last u \<noteq> CHR ''/''"
  shows "\<exists>this. OsmRequest defaults (JObj opts) = Inr this \<and> endpoint this = JStr u \<and>
           map_of (priv_auth this) ''url'' = Some (JStr u) \<and>
           fetchNotes rq1 this left bottom right top' limit closedDays =
             rq1 (JStr u) left bottom right top' (default_to JNull limit) (default_to JNull closedDays) \<and>
           fetchNotesSearch rq2 this q format limit closed' display_name user from to =
             rq2 (JStr u) q (default_to (JStr ''xml'') format) (default_to JNull limit) (default_to JNull closed')
               (default_to JNull display_name) (default_to JNull user) (default_to JNull from) (default_to JNull to) \<and>
           fetchNote rq3 this noteId format =
             rq3 (JStr u) noteId (default_to (JStr ''xml'') format) \<and>
           createNote rq4 this lat lon note =
             rq4 (priv_auth this) (JStr u) lat lon note \<and>
           commentNote rq5 this noteId note =
             rq5 (priv_auth this) (JStr u) noteId note (JStr ''comment'') \<and>
           closeNote rq5 this noteId note =
             rq5 (priv_auth this) (JStr u) noteId note (JStr ''close'') \<and>
           reopenNote rq5 this noteId note =
             rq5 (priv_auth this) (JStr u) noteId note (JStr ''reopen'') \<and>
           createChangeset rq6 this createdBy comment =
             rq6 (priv_auth this) (JStr u) (default_to (JStr []) createdBy) (default_to (JStr []) comment) \<and>
           isChangesetStillOpen rq7 this changesetId =
             rq7 (priv_auth this) (JStr u) changesetId \<and>
           updateChangesetTags rq8 this changesetId object =
             rq8 (priv_auth this) (JStr u) changesetId object \<and>
           fetchElement rq9 rq10 this osmId options =
             (if truthy options \<and> (case get_prop options ''full'' of Inr f \<Rightarrow> truthy f | Inl e \<Rightarrow> False)
              then rq9 (JStr u) osmId else rq10 (JStr u) osmId) \<and>
           fetchRelationsForElement rq11 this osmId =
             rq11 (JStr u) osmId \<and>
           fetchWaysForNode rq12 this osmId =
             rq12 (JStr u) osmId \<and>
           sendElement rq13 this element changesetId =
             rq13 (priv_auth this) (JStr u) element changesetId \<and>
           fetchMapByBbox rq14 this left bottom right top' =
             rq14 (JStr u) left bottom right top' \<and>
           deleteElement rq15 this element changesetId =
             rq15 (priv_auth this) (JStr u) element changesetId \<and>
           getUserPreferences rq16 this =
             rq16 (priv_auth this) (JStr u) \<and>
           setUserPreferences rq17 this object =
             rq17 (priv_auth this) (JStr u) object \<and>
           getUserPreferenceByKey rq18 this key =
             rq18 (priv_auth this) (JStr u) key \<and>
           setUserPreferenceByKey rq19 this key val =
             rq19 (priv_auth this) (JStr u) key val \<and>
           deleteUserPreference rq20 this key =
             rq20 (priv_auth this) (JStr u) key"
proof -
  have "map_of (object_spread defaults (own_properties (JObj opts))) ''endpoint''
          = Some (JStr (u @ replicate n CHR ''/''))"
    using spread_override [OF assms(1,2)] by (simp add: own_properties_def)
  from OsmRequest_endpoint [OF this] removeTrailingSlashes_strip [OF assms(3), of n]
  obtain this where t: "OsmRequest defaults (JObj opts) = Inr this" "endpoint this = JStr u"
    "map_of (priv_auth this) ''url'' = Some (JStr u)"
    by auto
  show ?thesis
    by (rule exI [of _ this])
       (simp add: t fetchNotes_def fetchNotesSearch_def fetchNote_def createNote_def commentNote_def closeNote_def reopenNote_def createChangeset_def isChangesetStillOpen_def updateChangesetTags_def fetchElement_def fetchRelationsForElement_def fetchWaysForNode_def sendElement_def fetchMapByBbox_def deleteElement_def getUserPreferences_def setUserPreferences_def getUserPreferenceByKey_def setUserPreferenceByKey_def deleteUserPreference_def)
qed

theorem endpoint_normalised_witness:
  "distinct (map fst [(''endpoint'', JStr ''https://api.example.org/api/0.6//'')]) \<and>
   (\<exists>this. OsmRequest [(''endpoint'', JStr ''https://www.openstreetmap.org'')]
             (JObj [(''endpoint'', JStr ''https://api.example.org/api/0.6//'')]) = Inr this \<and>
          endpoint this = JStr ''https://api.example.org/api/0.6'')"
proof -
  have 1: "distinct (map fst [(''endpoint'', JStr ''https://api.example.org/api/0.6//'')])" by simp
  have 2: "map_of [(''endpoint'', JStr ''https://api.example.org/api/0.6//'')] ''endpoint''
             = Some (JStr (''https://api.example.org/api/0.6'' @ replicate 2 CHR ''/''))"
    by (simp add: numeral_2_eq_2)
  have 3: "''https://api.example.org/api/0.6'' = [] \<or> last ''https://api.example.org/api/0.6'' \<noteq> CHR ''/''"
    by simp
  have "\<exists>this. OsmRequest [(''endpoint'', JStr ''https://www.openstreetmap.org'')]
             (JObj [(''endpoint'', JStr ''https://api.example.org/api/0.6//'')]) = Inr this \<and>
          endpoint this = JStr ''https://api.example.org/api/0.6''"
    apply (rule exE [OF endpoint_normalised [OF 1 2 3, of "[(''endpoint'', JStr ''https://www.openstreetmap.org'')]"]])
    apply (elim conjE)
    apply (rule exI)
    apply (rule conjI)
     apply assumption
    apply assumption
    done
  with 1 show ?thesis by blast
qed

text \<open>
  Claim C9. On an element whose inner object has no tag array, \<^verbatim>\<open>setProperty\<close> and
  \<^verbatim>\<open>setProperties\<close> return an element whose tags are the new tags alone, and
  \<^verbatim>\<open>removeProperty\<close> throws a \<^verbatim>\<open>TypeError\<close>, whatever the name.
\<close>

theorem missing_tag_array:
  assumes "is_element E" "\<not> has_tag_array E" "is_properties props"
  shows "(\<exists>E1. setProperty E (JStr k) (JStr v) = Inr E1 \<and> element_tags E1 = [tag_object k v]) \<and>
         (\<exists>E2. setProperties E (JObj props) = Inr E2 \<and> element_tags E2 = props_tags props) \<and>
         removeProperty E n = Inl TypeError"
proof -
  have s: "stringable (JStr k)" "stringable (JStr v)"
    by (simp_all add: stringable_def toString_method_def)
  have t: "element_tags E = []" using assms(2) by (auto simp: has_tag_array_def element_tags_def split: jsval.splits)
  from setProperty_facts [OF assms(1) s] setProperties_facts [OF assms(1,3)]
    removeProperty_untagged [OF assms(1,2), of n]
  show ?thesis by (auto simp: t the_string_def toString_method_def)
qed

theorem missing_tag_array_witness:
  "is_element example_untagged \<and> \<not> has_tag_array example_untagged \<and>
   is_properties [(''name'', JStr ''Cafe'')] \<and>
   (\<exists>E1. setProperty example_untagged (JStr ''name'') (JStr ''Cafe'') = Inr E1 \<and>
         element_tags E1 = [tag_object ''name'' ''Cafe'']) \<and>
   (\<exists>E2. setProperties example_untagged (JObj [(''name'', JStr ''Cafe'')]) = Inr E2 \<and>
         element_tags E2 = [tag_object ''name'' ''Cafe'']) \<and>
   removeProperty example_untagged (JStr ''name'') = Inl TypeError"
  using missing_tag_array [OF example_untagged_facts(1,3) example_values(5),
      where k = "''name''" and v = "''Cafe''" and n = "JStr ''name''"]
  by (simp add: example_untagged_facts example_values props_tags_def)

text \<open>
  Claim C10. \<^verbatim>\<open>setProperty\<close> converts the property name to a string before it filters
  and before it stores; \<^verbatim>\<open>removeProperty\<close> compares the stored keys with the name as it
  is. So for every element \<open>E\<close> and every name \<open>n\<close> that is not a string (and has a string
  form, as has the value), \<^verbatim>\<open>removeProperty(setProperty(E, n, v), n)\<close> returns an
  element in which the tag stored under the string form of \<open>n\<close> is still there.
\<close>

theorem remove_uncoerced_name:
  assumes "is_element E" "stringable n" "stringable v" "\<And>s. n \<noteq> JStr s"
  shows "\<exists>E1 E2. setProperty E n v = Inr E1 \<and> removeProperty E1 n = Inr E2 \<and>
           tag_object (the_string n) (the_string v) \<in> set (element_tags E1) \<and>
           tag_object (the_string n) (the_string v) \<in> set (element_tags E2) \<and>
           JStr (the_string n) \<in> set (tag_keys E2)"
proof -
  let ?new = "tag_object (the_string n) (the_string v)"
  from setProperty_facts [OF assms(1,2,3)] obtain E1 where
    1: "setProperty E n v = Inr E1" "is_element E1" "has_tag_array E1"
       "element_tags E1 = filter (\<lambda>t. tag_key t \<noteq> JStr (the_string n)) (element_tags E) @ [?new]"
    by blast
  from removeProperty_element [OF 1(2,3), of n] obtain E2 where
    2: "removeProperty E1 n = Inr E2"
       "element_tags E2 = filter (\<lambda>t. \<not> strict_eq (tag_key t) n) (element_tags E1)"
    by blast
  have keep: "\<not> strict_eq (tag_key ?new) n" using strict_eq_JStr_left [OF assms(4)] by simp
  have in1: "?new \<in> set (element_tags E1)" unfolding 1(4) by simp
  have in2: "?new \<in> set (element_tags E2)" unfolding 2(2) using in1 keep by simp
  then have "tag_key ?new \<in> set (tag_keys E2)" unfolding tag_keys_def by (simp only: set_map imageI)
  with 1(1) 2(1) in1 in2 show ?thesis by auto
qed

theorem remove_uncoerced_name_witness:
  "is_element example_node \<and> stringable (JNum ''5'') \<and> stringable (JStr ''x'') \<and>
   (\<exists>E1 E2. setProperty example_node (JNum ''5'') (JStr ''x'') = Inr E1 \<and>
            removeProperty E1 (JNum ''5'') = Inr E2 \<and>
            tag_object ''5'' ''x'' \<in> set (element_tags E2) \<and>
            JStr ''5'' \<in> set (tag_keys E2))"
proof -
  have n: "\<And>s. JNum ''5'' \<noteq> JStr s" by simp
  from remove_uncoerced_name [OF example_node_facts(1) example_values(1) example_values(2) n]
  show ?thesis by (simp add: example_node_facts example_values) blast
qed


end
